theory Spec2Isabelle
  imports Complex_Main
begin

section \<open>Values of the host language\<close>

text \<open>
  A number of the host language is a double: not-a-number, one of the two infinities, or
  a finite value. The code below only tests a number for finiteness, compares it with
  zero and passes it on, so a finite value is kept as the rational it denotes.
\<close>

datatype jsnum = NaN | PosInf | NegInf | Fin rat

text \<open>\<^verbatim>\<open>Number.isFinite(v)\<close> on a number.\<close>

fun isFinite :: "jsnum \<Rightarrow> bool" where
  "isFinite (Fin r) = True"
| "isFinite v = False"

text \<open>\<^verbatim>\<open>v > 0\<close> on a number: false for not-a-number.\<close>

fun gt_zero :: "jsnum \<Rightarrow> bool" where
  "gt_zero (Fin r) = (0 < r)"
| "gt_zero PosInf = True"
| "gt_zero v = False"

text \<open>Truthiness of a number: zero and not-a-number are falsy.\<close>

fun truthy_num :: "jsnum \<Rightarrow> bool" where
  "truthy_num NaN = False"
| "truthy_num (Fin r) = (r \<noteq> 0)"
| "truthy_num v = True"

text \<open>Truthiness of an optional string: \<^verbatim>\<open>undefined\<close> and the empty string are falsy.\<close>

fun truthy_str :: "string option \<Rightarrow> bool" where
  "truthy_str None = False"
| "truthy_str (Some s) = (s \<noteq> [])"

text \<open>
  Strings are lists of 8-bit characters (the code units up to U+00FF). Among them the
  white space and line terminators that \<^verbatim>\<open>String.prototype.trim\<close> removes are
  U+0009 to U+000D, U+0020 and U+00A0.
\<close>

definition is_space :: "char \<Rightarrow> bool" where
  "is_space c = (c \<in> {CHR 0x09, CHR 0x0A, CHR 0x0B, CHR 0x0C, CHR 0x0D, CHR 0x20, CHR 0xA0})"

definition trim :: "string \<Rightarrow> string" where
  "trim s = rev (dropWhile is_space (rev (dropWhile is_space s)))"

text \<open>\<^verbatim>\<open>s.startsWith(k)\<close> and \<^verbatim>\<open>s.includes(k)\<close>.\<close>

fun startsWith :: "string \<Rightarrow> string \<Rightarrow> bool" where
  "startsWith s [] = True"
| "startsWith [] (k # ks) = False"
| "startsWith (c # cs) (k # ks) = (c = k \<and> startsWith cs ks)"

fun includes_str :: "string \<Rightarrow> string \<Rightarrow> bool" where
  "includes_str [] k = (k = [])"
| "includes_str (c # cs) k = (startsWith (c # cs) k \<or> includes_str cs k)"

section \<open>Settings and events\<close>

text \<open>The \<^verbatim>\<open>interval\<close> setting is a number or a string.\<close>

datatype interval_value = IntervalNumber jsnum | IntervalString string

text \<open>\<^verbatim>\<open>PythonServiceSettings\<close>: every field is optional.\<close>

record PythonServiceSettings =
  path :: "string option"
  value1 :: "string option"
  image1 :: "string option"
  value2 :: "string option"
  image2 :: "string option"
  displayValues :: "bool option"
  useVenv :: "bool option"
  venvPath :: "string option"
  interval :: "interval_value option"
  id_setting :: "string option"

text \<open>
  \<^verbatim>\<open>NormalizedSettings\<close>: the settings as given (the spread), with \<^verbatim>\<open>interval\<close>,
  \<^verbatim>\<open>displayValues\<close> and \<^verbatim>\<open>useVenv\<close> overridden by a number and two booleans.
\<close>

record NormalizedSettings =
  given :: PythonServiceSettings
  intervalN :: jsnum
  displayValuesN :: bool
  useVenvN :: bool

text \<open>
  What the code reads of an event of the host (will-appear, did-receive-settings,
  will-disappear, key-down): \<^verbatim>\<open>ev.action.id\<close>, \<^verbatim>\<open>ev.action.manifestId\<close> and
  \<^verbatim>\<open>ev.payload.settings\<close>.
\<close>

record event =
  action_id :: string
  manifestId :: string
  settings :: PythonServiceSettings

section \<open>The runtime outside the repository\<close>

text \<open>
  What the file system answers for a path: \<^verbatim>\<open>fs.existsSync\<close> is false (\<open>Missing\<close>),
  the path exists and \<^verbatim>\<open>fs.statSync(p).isFile()\<close> is true (\<open>RegularFile\<close>) or false
  (\<open>NotRegular\<close>), or \<^verbatim>\<open>fs.statSync\<close> throws with a message (\<open>StatThrows\<close>).
\<close>

datatype fstat = Missing | RegularFile | NotRegular | StatThrows string

text \<open>
  The library functions the code calls and the repository does not define:
  \<^verbatim>\<open>Number(s)\<close> on a string, the product \<^verbatim>\<open>a * b\<close> of two numbers (a double,
  rounded), the file system, \<^verbatim>\<open>path.dirname\<close> and \<^verbatim>\<open>path.basename\<close>.
\<close>

record runtime =
  Number :: "string \<Rightarrow> jsnum"
  times :: "jsnum \<Rightarrow> jsnum \<Rightarrow> jsnum"
  stat :: "string \<Rightarrow> fstat"
  dirname :: "string \<Rightarrow> string"
  basename :: "string \<Rightarrow> string"

section \<open>Commands sent to the host\<close>

datatype level = Debug | Info | Warn | Error

text \<open>
  A logger call, and \<^verbatim>\<open>setImage\<close>, \<^verbatim>\<open>setTitle\<close> and \<^verbatim>\<open>showAlert\<close> on the action
  with the given id.
\<close>

datatype command =
  Log level string
| SetImage string string
| SetTitle string string
| ShowAlert string

section \<open>The background service\<close>

datatype ServiceState = running | stopped

record TrackedAction =
  id_tracked :: string
  ev :: event
  timerId :: "nat option"

text \<open>
  A live interval timer of the runtime: the event its callback passes to
  \<^verbatim>\<open>executeAction\<close>, and the delay in milliseconds at which the runtime repeats it.
\<close>

record timer =
  timer_ev :: event
  delayMs :: jsnum

text \<open>
  The service object (\<open>trackedActions\<close>, \<open>state\<close>) together with what it acts on:
  the live timers of the runtime, each under its handle, the next fresh handle, and the
  commands sent to the host so far.
\<close>

record service =
  trackedActions :: "TrackedAction list"
  state :: ServiceState
  timers :: "(nat \<times> timer) list"
  nextTimer :: nat
  trace :: "command list"

definition initial :: service where
  "initial = \<lparr>trackedActions = [], state = stopped, timers = [], nextTimer = 0, trace = []\<rparr>"

definition emit :: "command list \<Rightarrow> service \<Rightarrow> service" where
  "emit cs s = s\<lparr>trace := trace s @ cs\<rparr>"

text \<open>\<^verbatim>\<open>clearInterval(h)\<close>: the timer under \<open>h\<close>, if live, is no longer.\<close>

definition clearInterval :: "nat \<Rightarrow> service \<Rightarrow> service" where
  "clearInterval h s = s\<lparr>timers := filter (\<lambda>p. fst p \<noteq> h) (timers s)\<rparr>"

text \<open>
  The delay the runtime keeps for a timer asked for with delay \<open>after\<close>: a delay that
  is not between 1 and \<^verbatim>\<open>TIMEOUT_MAX\<close> = 2147483647 milliseconds (also not-a-number
  and the infinities) is set to 1.
\<close>

definition TIMEOUT_MAX :: rat where
  "TIMEOUT_MAX = 2147483647"

fun inTimeoutRange :: "jsnum \<Rightarrow> bool" where
  "inTimeoutRange (Fin r) = (1 \<le> r \<and> r \<le> TIMEOUT_MAX)"
| "inTimeoutRange v = False"

definition timeoutDelay :: "jsnum \<Rightarrow> jsnum" where
  "timeoutDelay after = (if inTimeoutRange after then after else Fin 1)"

text \<open>
  \<^verbatim>\<open>setInterval(callback, after)\<close>, the callback being the one of \<^verbatim>\<open>createTimer\<close> for
  the event \<open>e\<close>: a live timer under a fresh handle.
\<close>

definition setInterval :: "event \<Rightarrow> jsnum \<Rightarrow> service \<Rightarrow> nat \<times> service" where
  "setInterval e after s =
     (nextTimer s,
      s\<lparr>timers := timers s @ [(nextTimer s, \<lparr>timer_ev = e, delayMs = timeoutDelay after\<rparr>)],
        nextTimer := Suc (nextTimer s)\<rparr>)"

text \<open>\<^verbatim>\<open>normalizeSettings\<close>\<close>

definition normalizeSettings :: "runtime \<Rightarrow> PythonServiceSettings \<Rightarrow> NormalizedSettings" where
  "normalizeSettings rt st =
     (let intervalRaw =
            (case interval st of
               Some (IntervalString str) \<Rightarrow> Some (Number rt str)
             | Some (IntervalNumber n) \<Rightarrow> Some n
             | None \<Rightarrow> None);
          interval' =
            (case intervalRaw of
               Some v \<Rightarrow> if isFinite v \<and> gt_zero v then v else Fin 10
             | None \<Rightarrow> Fin 10)
      in \<lparr>given = st, intervalN = interval',
          displayValuesN = (displayValues st = Some True),
          useVenvN = (useVenv st = Some True)\<rparr>)"

text \<open>\<^verbatim>\<open>createTimer\<close>\<close>

definition createTimer :: "runtime \<Rightarrow> event \<Rightarrow> service \<Rightarrow> nat \<times> service" where
  "createTimer rt e s =
     (let settings' = normalizeSettings rt (settings e);
          intervalSeconds' = intervalN settings'
      in setInterval e (times rt intervalSeconds' (Fin 1000)) s)"

text \<open>\<^verbatim>\<open>Array.prototype.findIndex\<close>, with \<open>None\<close> for -1.\<close>

fun findIndex :: "('a \<Rightarrow> bool) \<Rightarrow> 'a list \<Rightarrow> nat option" where
  "findIndex P [] = None"
| "findIndex P (x # xs) =
     (if P x then Some 0 else map_option Suc (findIndex P xs))"

text \<open>\<^verbatim>\<open>if (t.timerId) clearInterval(t.timerId)\<close>: a handle is an object, hence truthy.\<close>

definition clearTimerOf :: "TrackedAction \<Rightarrow> service \<Rightarrow> service" where
  "clearTimerOf t s = (case timerId t of Some h \<Rightarrow> clearInterval h s | None \<Rightarrow> s)"

text \<open>\<^verbatim>\<open>registerAction\<close>\<close>

definition registerAction :: "runtime \<Rightarrow> event \<Rightarrow> service \<Rightarrow> service" where
  "registerAction rt e s0 =
     (let s = emit [Log Info ''checking if action is already tracked''] s0 in
      case findIndex (\<lambda>a. id_tracked a = action_id e) (trackedActions s) of
        Some existingIndex \<Rightarrow>
          (let existing = trackedActions s ! existingIndex;
               s1 = clearTimerOf existing s;
               updatedAction = existing\<lparr>ev := e\<rparr>;
               (updatedAction', s2) =
                 (if state s1 = running
                  then (let (h, s') = createTimer rt e s1
                        in (updatedAction\<lparr>timerId := Some h\<rparr>, s'))
                  else (updatedAction, s1));
               s3 = s2\<lparr>trackedActions := (trackedActions s2)[existingIndex := updatedAction']\<rparr>
           in emit [Log Info ''action already tracked - settings updated''] s3)
      | None \<Rightarrow>
          s\<lparr>trackedActions :=
              trackedActions s @ [\<lparr>id_tracked = action_id e, ev = e, timerId = None\<rparr>]\<rparr>)"

text \<open>\<^verbatim>\<open>unregisterAction\<close>: \<^verbatim>\<open>splice(index, 1)\<close> removes the entry at \<open>index\<close>.\<close>

definition unregisterAction :: "event \<Rightarrow> service \<Rightarrow> service" where
  "unregisterAction e s =
     (case findIndex (\<lambda>a. id_tracked a = action_id e) (trackedActions s) of
        Some index \<Rightarrow>
          (let tracked = trackedActions s ! index;
               s1 = (case timerId tracked of
                       Some h \<Rightarrow>
                         clearInterval h
                           (emit [Log Info (''stopping execution of the action '' @ manifestId e
                                            @ '', id: '' @ action_id e)] s)
                     | None \<Rightarrow> s)
           in s1\<lparr>trackedActions := take index (trackedActions s1) @ drop (Suc index) (trackedActions s1)\<rparr>)
      | None \<Rightarrow> s)"

text \<open>
  The loop of \<^verbatim>\<open>start\<close>: each tracked entry, in order, has its timer cleared and a
  fresh one created from its stored event.
\<close>

fun startEach :: "runtime \<Rightarrow> TrackedAction list \<Rightarrow> service \<Rightarrow> TrackedAction list \<times> service" where
  "startEach rt [] s = ([], s)"
| "startEach rt (tracked # rest) s =
     (let s1 = clearTimerOf tracked s;
          (h, s2) = createTimer rt (ev tracked) s1;
          (rest', s3) = startEach rt rest s2
      in (tracked\<lparr>timerId := Some h\<rparr> # rest', s3))"

text \<open>\<^verbatim>\<open>start\<close>\<close>

definition start :: "runtime \<Rightarrow> event \<Rightarrow> service \<Rightarrow> service" where
  "start rt e s0 =
     (let s = emit [Log Info ''starting Background Service''] s0;
          (tracked', s1) = startEach rt (trackedActions s) s;
          s2 = s1\<lparr>trackedActions := tracked', state := running\<rparr>
      in emit [SetImage (action_id e) ''imgs/actions/pyServiceRunning.png''] s2)"

text \<open>The loop of \<^verbatim>\<open>stop\<close>: a timer that exists is cleared and its handle forgotten.\<close>

fun stopEach :: "TrackedAction list \<Rightarrow> service \<Rightarrow> TrackedAction list \<times> service" where
  "stopEach [] s = ([], s)"
| "stopEach (tracked # rest) s =
     (case timerId tracked of
        Some h \<Rightarrow>
          (let (rest', s') = stopEach rest (clearInterval h s)
           in (tracked\<lparr>timerId := None\<rparr> # rest', s'))
      | None \<Rightarrow>
          (let (rest', s') = stopEach rest s in (tracked # rest', s')))"

text \<open>\<^verbatim>\<open>stop\<close>\<close>

definition stop :: "event \<Rightarrow> service \<Rightarrow> service" where
  "stop e s0 =
     (let s = emit [Log Info ''stopping Background Service''] s0;
          (tracked', s1) = stopEach (trackedActions s) s;
          s2 = s1\<lparr>trackedActions := tracked', state := stopped\<rparr>;
          s3 = emit [Log Info (''stopping execution of the action '' @ manifestId e
                               @ '', id: '' @ action_id e)] s2
      in emit [SetImage (action_id e) ''imgs/actions/pyServiceStopped.png''] s3)"

text \<open>\<^verbatim>\<open>getState\<close>\<close>

definition getState :: "service \<Rightarrow> ServiceState" where
  "getState s = state s"

text \<open>
  The states of the service that calls of \<^verbatim>\<open>registerAction\<close>, \<^verbatim>\<open>unregisterAction\<close>,
  \<^verbatim>\<open>start\<close> and \<^verbatim>\<open>stop\<close> reach from the initial one (no tracked action, stopped),
  whatever commands the actions send to the host in between.
\<close>

inductive reachable :: "runtime \<Rightarrow> service \<Rightarrow> bool" for rt :: runtime where
  reach_initial: "reachable rt initial"
| reach_register: "reachable rt s \<Longrightarrow> reachable rt (registerAction rt e s)"
| reach_unregister: "reachable rt s \<Longrightarrow> reachable rt (unregisterAction e s)"
| reach_start: "reachable rt s \<Longrightarrow> reachable rt (start rt e s)"
| reach_stop: "reachable rt s \<Longrightarrow> reachable rt (stop e s)"
| reach_emit: "reachable rt s \<Longrightarrow> reachable rt (emit cs s)"

text \<open>The timer handles that the tracked entries hold, in table order.\<close>

fun handles :: "TrackedAction list \<Rightarrow> nat list" where
  "handles [] = []"
| "handles (t # ts) = (case timerId t of Some h \<Rightarrow> h # handles ts | None \<Rightarrow> handles ts)"

text \<open>
  The bookkeeping every reachable state keeps: no two entries share an id or a handle,
  the live timers are exactly the handles held, each under one handle that was given
  out before, and a stopped service holds no handle.
\<close>

definition consistent :: "service \<Rightarrow> bool" where
  "consistent s =
     (distinct (map id_tracked (trackedActions s)) \<and>
      distinct (handles (trackedActions s)) \<and>
      distinct (map fst (timers s)) \<and>
      set (map fst (timers s)) = set (handles (trackedActions s)) \<and>
      list_all (\<lambda>h. h < nextTimer s) (handles (trackedActions s)) \<and>
      (state s = running \<or> handles (trackedActions s) = []))"

section \<open>The executor's output handlers\<close>

definition newline :: char where
  "newline = CHR 0x0A"

definition carriage_return :: char where
  "carriage_return = CHR 0x0D"

text \<open>A three-line title: \<^verbatim>\<open>"a\nb\nc"\<close>.\<close>

definition title3 :: "string \<Rightarrow> string \<Rightarrow> string \<Rightarrow> string" where
  "title3 a b c = a @ newline # b @ newline # c"

text \<open>\<^verbatim>\<open>pythonErrorMap\<close>, in the order its keys are written (the order \<^verbatim>\<open>for ... in\<close> visits them).\<close>

definition pythonErrorMap :: "(string \<times> string) list" where
  "pythonErrorMap =
     [(''SyntaxError'', title3 ''Python'' ''Syntax'' ''Error''),
      (''NameError'', title3 ''Python'' ''Name'' ''Error''),
      (''TypeError'', title3 ''Python'' ''Type'' ''Error''),
      (''ValueError'', title3 ''Python'' ''Value'' ''Error''),
      (''ZeroDivisionError'', title3 ''Python'' ''ZeroDiv'' ''Error''),
      (''IndexError'', title3 ''Python'' ''Index'' ''Error''),
      (''KeyError'', title3 ''Python'' ''Key'' ''Error''),
      (''AttributeError'', title3 ''Python'' ''Attribute'' ''Error''),
      (''ImportError'', title3 ''Python'' ''Import'' ''Error''),
      (''No such file or directory'', title3 ''Python'' ''File'' ''Error''),
      (''ModuleNotFoundError'', title3 ''Python'' ''Module'' ''Error''),
      (''RuntimeError'', title3 ''Python'' ''Runtime'' ''Error''),
      (''MemoryError'', title3 ''Python'' ''Memory'' ''Error''),
      (''OverflowError'', title3 ''Python'' ''Overflow'' ''Error''),
      (''SystemError'', title3 ''Python'' ''System'' ''Error''),
      (''Microsoft Store'', title3 ''Python'' ''not found'' ''Error'')]"

definition otherIssue :: string where
  "otherIssue = title3 ''python'' ''other'' ''issue''"

text \<open>
  The classification loop: the title starts as the generic one; the first key of the
  table that the message includes sets it, and the loop breaks.
\<close>

fun errorTitleOf :: "(string \<times> string) list \<Rightarrow> string \<Rightarrow> string" where
  "errorTitleOf [] errorString = otherIssue"
| "errorTitleOf ((key, label) # rest) errorString =
     (if includes_str errorString key then label else errorTitleOf rest errorString)"

text \<open>\<^verbatim>\<open>replace(/(?:\r\n|\r|\n)/g, " ")\<close>\<close>

fun collapseNewlines :: "string \<Rightarrow> string" where
  "collapseNewlines [] = []"
| "collapseNewlines [c] = (if c = carriage_return \<or> c = newline then '' '' else [c])"
| "collapseNewlines (c # d # cs) =
     (if c = carriage_return \<and> d = newline then CHR '' '' # collapseNewlines cs
      else if c = carriage_return \<or> c = newline then CHR '' '' # collapseNewlines (d # cs)
      else c # collapseNewlines (d # cs))"

text \<open>The message a chunk of standard error is classified by.\<close>

definition errorStringOf :: "string \<Rightarrow> string" where
  "errorStringOf data = collapseNewlines (trim data)"

text \<open>The handler of \<^verbatim>\<open>executeAction\<close> for a chunk of the child's standard error.\<close>

definition stderrHandler :: "event \<Rightarrow> string \<Rightarrow> command list" where
  "stderrHandler e data =
     (let errorString = errorStringOf data;
          errorTitle = errorTitleOf pythonErrorMap errorString
      in [Log Error (''stderr: '' @ errorString),
          SetImage (action_id e) ''imgs/actions/pyServiceIconFail.png'']
         @ (if errorTitle = otherIssue then [Log Error errorString] else [])
         @ [SetTitle (action_id e) errorTitle, ShowAlert (action_id e)])"

text \<open>\<^verbatim>\<open>v ?? ""\<close>\<close>

fun orEmpty :: "string option \<Rightarrow> string" where
  "orEmpty None = []"
| "orEmpty (Some v) = v"

text \<open>
  The image a chunk of standard output selects: \<^verbatim>\<open>image1\<close> when it is truthy and the
  output is \<^verbatim>\<open>value1\<close>, else \<^verbatim>\<open>image2\<close> in the same way, else the given idle image.
\<close>

definition imageFor ::
  "string option \<Rightarrow> string option \<Rightarrow> string option \<Rightarrow> string option \<Rightarrow> string \<Rightarrow> string \<Rightarrow> string" where
  "imageFor img1 val1 img2 val2 idle output =
     (if truthy_str img1 \<and> output = orEmpty val1 then orEmpty img1
      else if truthy_str img2 \<and> output = orEmpty val2 then orEmpty img2
      else idle)"

text \<open>
  The handler of \<^verbatim>\<open>executeAction\<close> for a chunk of the child's standard output; the
  settings are those of the event, normalized when \<^verbatim>\<open>executeAction\<close> was entered.
\<close>

definition stdoutHandler :: "runtime \<Rightarrow> event \<Rightarrow> string \<Rightarrow> command list" where
  "stdoutHandler rt e data =
     (let settings' = normalizeSettings rt (settings e);
          output = trim data
      in [Log Info (''stdout: '' @ output)]
         @ (if displayValuesN settings' then [SetTitle (action_id e) output] else [])
         @ [SetImage (action_id e)
              (imageFor (image1 (given settings')) (value1 (given settings'))
                 (image2 (given settings')) (value2 (given settings'))
                 ''imgs/actions/pyServiceIcon.png'' output)])"

text \<open>\<^verbatim>\<open>PythonScriptSettings\<close> and the key-down event of the one-shot script action.\<close>

record PythonScriptSettings =
  script_path :: "string option"
  script_value1 :: "string option"
  script_image1 :: "string option"
  script_value2 :: "string option"
  script_image2 :: "string option"
  script_displayValues :: "bool option"
  script_useVenv :: "bool option"
  script_venvPath :: "string option"

record script_event =
  script_action_id :: string
  script_settings :: PythonScriptSettings

text \<open>
  The handler of \<^verbatim>\<open>PythonScript.onKeyDown\<close> for a chunk of the child's standard output;
  it reads the settings of the event as they are.
\<close>

definition scriptStdoutHandler :: "script_event \<Rightarrow> string \<Rightarrow> command list" where
  "scriptStdoutHandler e data =
     (let settings' = script_settings e;
          output = trim data
      in [Log Info (''stdout: '' @ output)]
         @ (if script_displayValues settings' = Some True
            then [SetTitle (script_action_id e) output] else [])
         @ [SetImage (script_action_id e)
              (imageFor (script_image1 settings') (script_value1 settings')
                 (script_image2 settings') (script_value2 settings')
                 ''imgs/actions/gemini_icons/pyFileLoaded.png'' output)])"

section \<open>The service action\<close>

text \<open>
  \<^verbatim>\<open>normalizeVenvPath\<close> (the same method in the background service and in both
  actions), with what it logs: a path to a regular file gives its parent directory;
  any other path, also one whose check throws, is returned as it is.
\<close>

definition normalizeVenvPath :: "runtime \<Rightarrow> string \<Rightarrow> string \<times> command list" where
  "normalizeVenvPath rt venvPath' =
     (case stat rt venvPath' of
        RegularFile \<Rightarrow> (dirname rt venvPath', [])
      | StatThrows err \<Rightarrow> (venvPath', [Log Warn (''Could not check venv path: '' @ err)])
      | Missing \<Rightarrow> (venvPath', [])
      | NotRegular \<Rightarrow> (venvPath', []))"

text \<open>\<^verbatim>\<open>s.lastIndexOf(c)\<close>, -1 when \<open>c\<close> does not occur.\<close>

definition lastIndexOf :: "string \<Rightarrow> char \<Rightarrow> int" where
  "lastIndexOf s c =
     (case findIndex (\<lambda>x. x = c) (rev s) of
        None \<Rightarrow> - 1
      | Some k \<Rightarrow> int (length s) - 1 - int k)"

text \<open>\<^verbatim>\<open>getFileNameFromPath\<close>\<close>

definition getFileNameFromPath :: "string \<Rightarrow> string" where
  "getFileNameFromPath p = drop (nat (lastIndexOf p (CHR ''/'') + 1)) p"

text \<open>\<^verbatim>\<open>getInterval\<close>\<close>

definition getInterval :: "runtime \<Rightarrow> interval_value option \<Rightarrow> jsnum option" where
  "getInterval rt v =
     (case v of
        Some (IntervalNumber n) \<Rightarrow> if isFinite n \<and> gt_zero n then Some n else None
      | Some (IntervalString str) \<Rightarrow>
          (let parsed = Number rt (trim str)
           in if isFinite parsed \<and> gt_zero parsed then Some parsed else None)
      | None \<Rightarrow> None)"

text \<open>\<^verbatim>\<open>checkSettingsComplete\<close>, with what it logs.\<close>

definition checkSettingsComplete :: "runtime \<Rightarrow> PythonServiceSettings \<Rightarrow> bool \<times> command list" where
  "checkSettingsComplete rt st =
     (let interval' = getInterval rt (interval st)
      in if truthy_str (path st) \<and> (case interval' of Some v \<Rightarrow> truthy_num v | None \<Rightarrow> False)
         then (True, [Log Info ''settings complete''])
         else (False, []))"

text \<open>
  The first block of \<^verbatim>\<open>onWillAppear\<close> and of \<^verbatim>\<open>onDidReceiveSettings\<close> (the same
  text in both): a script path that includes \<^verbatim>\<open>.py\<close> sets the idle image and a title
  of the environment's name and the script's file name.
\<close>

definition showScript :: "runtime \<Rightarrow> event \<Rightarrow> command list" where
  "showScript rt e =
     (let st = settings e in
      if truthy_str (path st) \<and> includes_str (orEmpty (path st)) ''.py''
      then
        (let (venvname, logs) =
               (if useVenv st = Some True \<and> truthy_str (venvPath st)
                then (let (normalizedVenvPath, warned) = normalizeVenvPath rt (orEmpty (venvPath st));
                          venvname1 = basename rt normalizedVenvPath @ [newline]
                      in (''venv:'' @ newline # '' '' @ venvname1,
                          warned @ [Log Info (''Normalized venv path: '' @ normalizedVenvPath),
                                    Log Info venvname1]))
                else ([], []))
         in [SetImage (action_id e) ''imgs/actions/pyServiceIcon.png''] @ logs
            @ [SetTitle (action_id e) (venvname @ getFileNameFromPath (orEmpty (path st)))])
      else [])"

text \<open>\<^verbatim>\<open>PythonService.onWillAppear\<close>\<close>

definition onWillAppear :: "runtime \<Rightarrow> event \<Rightarrow> service \<Rightarrow> service" where
  "onWillAppear rt e s0 =
     (let s = emit (showScript rt e) s0;
          (complete, logs) = checkSettingsComplete rt (settings e)
      in if complete then registerAction rt e (emit logs s) else emit logs s)"

text \<open>\<^verbatim>\<open>PythonService.onDidReceiveSettings\<close>\<close>

definition onDidReceiveSettings :: "runtime \<Rightarrow> event \<Rightarrow> service \<Rightarrow> service" where
  "onDidReceiveSettings rt e s0 = registerAction rt e (emit (showScript rt e) s0)"

text \<open>\<^verbatim>\<open>PythonService.onWillDisappear\<close>\<close>

definition onWillDisappear :: "event \<Rightarrow> service \<Rightarrow> service" where
  "onWillDisappear e s0 =
     unregisterAction e (emit [Log Info ''onWillDisappear - unregister Action''] s0)"

text \<open>\<^verbatim>\<open>PythonService.onKeyDown\<close>\<close>

definition onKeyDown :: "runtime \<Rightarrow> event \<Rightarrow> service \<Rightarrow> service" where
  "onKeyDown rt e s =
     (let isRunning = (getState s = running) in
      if isRunning then stop e s
      else (let (complete, logs) = checkSettingsComplete rt (settings e)
            in if complete then start rt e (emit logs s)
               else emit [Log Warn ''Cannot start background service - incomplete settings'',
                          ShowAlert (action_id e)] (emit logs s)))"

section \<open>A sample runtime and sample events\<close>

text \<open>
  A runtime to run the model on: its conversion reads a non-empty string of decimal
  digits as the number it writes and any other string as not-a-number; its product of
  two finite numbers is the exact one (the double product wherever that is a double, as
  for whole numbers below 2^53; the code multiplies finite numbers only); its file system
  holds the directories \<^verbatim>\<open>/\<close> and \<^verbatim>\<open>/venv\<close> and the regular file
  \<^verbatim>\<open>/venv/pyvenv.cfg\<close>; the directory and base name of a path are split at its last
  slash (\<^verbatim>\<open>.\<close> is the directory of a path with no slash, \<^verbatim>\<open>/\<close> that of a path whose
  only slash is the first character).
\<close>

definition is_digit :: "char \<Rightarrow> bool" where
  "is_digit c = (48 \<le> (of_char c :: nat) \<and> (of_char c :: nat) \<le> 57)"

definition digitsValue :: "string \<Rightarrow> nat" where
  "digitsValue s = foldl (\<lambda>acc c. 10 * acc + (of_char c - 48)) 0 s"

definition sampleNumber :: "string \<Rightarrow> jsnum" where
  "sampleNumber s = (if s \<noteq> [] \<and> list_all is_digit s then Fin (of_nat (digitsValue s)) else NaN)"

fun sampleTimes :: "jsnum \<Rightarrow> jsnum \<Rightarrow> jsnum" where
  "sampleTimes (Fin a) (Fin b) = Fin (a * b)"
| "sampleTimes v w = NaN"

definition sampleStat :: "string \<Rightarrow> fstat" where
  "sampleStat p =
     (if p = ''/venv/pyvenv.cfg'' then RegularFile
      else if p = ''/venv'' \<or> p = ''/'' then NotRegular
      else Missing)"

definition sampleDirname :: "string \<Rightarrow> string" where
  "sampleDirname p =
     (let i = lastIndexOf p (CHR ''/'')
      in if i < 0 then ''.'' else if i = 0 then ''/'' else take (nat i) p)"

definition sampleRuntime :: runtime where
  "sampleRuntime =
     \<lparr>Number = sampleNumber, times = sampleTimes, stat = sampleStat, dirname = sampleDirname,
      basename = getFileNameFromPath\<rparr>"

definition sampleSettings :: PythonServiceSettings where
  "sampleSettings =
     \<lparr>path = Some ''/s.py'', value1 = Some ''on'', image1 = Some ''imgs/on.png'',
      value2 = Some ''off'', image2 = Some ''imgs/off.png'', displayValues = Some True,
      useVenv = None, venvPath = None, interval = Some (IntervalNumber (Fin 2)),
      id_setting = None\<rparr>"

definition eventOf :: "string \<Rightarrow> PythonServiceSettings \<Rightarrow> event" where
  "eventOf i st =
     \<lparr>action_id = i, manifestId = ''com.nicoohagedorn.pythonscriptdeck.service'', settings = st\<rparr>"



text \<open>
  The numeric value of an interval setting: a number is its own value, a string has the
  value the runtime's conversion gives it.
\<close>

definition numericValue :: "runtime \<Rightarrow> interval_value \<Rightarrow> jsnum" where
  "numericValue rt v = (case v of IntervalNumber n \<Rightarrow> n | IntervalString str \<Rightarrow> Number rt str)"

section \<open>The sample runtime, evaluated\<close>

lemma sampleNumber_5: "Number sampleRuntime ''5'' = Fin 5"
  by (simp add: sampleRuntime_def sampleNumber_def is_digit_def digitsValue_def)

lemma sampleNumber_abc: "Number sampleRuntime ''abc'' = NaN"
  by (simp add: sampleRuntime_def sampleNumber_def is_digit_def)

section \<open>Interval normalization\<close>

text \<open>
  Claim C3. For every settings object, the interval of \<^verbatim>\<open>normalizeSettings\<close> is the
  numeric value of the input when that value is finite and strictly positive, and the
  default 10 otherwise, also when the setting is absent. On a runtime whose conversion
  reads \<^verbatim>\<open>"5"\<close> as 5 and \<^verbatim>\<open>"abc"\<close> as not-a-number: \<^verbatim>\<open>"5"\<close> gives 5; 0, -3,
  \<^verbatim>\<open>"abc"\<close> and \<^verbatim>\<open>undefined\<close> give 10; 7.5 gives 7.5. The normalized interval is
  always finite and strictly positive.
\<close>

theorem normalizeSettings_interval:
  assumes five: "Number rt ''5'' = Fin 5" and abc: "Number rt ''abc'' = NaN"
  shows "intervalN (normalizeSettings rt (st\<lparr>interval := Some v\<rparr>)) =
           (if isFinite (numericValue rt v) \<and> gt_zero (numericValue rt v)
            then numericValue rt v else Fin 10)
       \<and> intervalN (normalizeSettings rt (st\<lparr>interval := None\<rparr>)) = Fin 10
       \<and> intervalN (normalizeSettings rt (st\<lparr>interval := Some (IntervalString ''5'')\<rparr>)) = Fin 5
       \<and> intervalN (normalizeSettings rt (st\<lparr>interval := Some (IntervalNumber (Fin 0))\<rparr>)) = Fin 10
       \<and> intervalN (normalizeSettings rt (st\<lparr>interval := Some (IntervalNumber (Fin (- 3)))\<rparr>)) = Fin 10
       \<and> intervalN (normalizeSettings rt (st\<lparr>interval := Some (IntervalString ''abc'')\<rparr>)) = Fin 10
       \<and> intervalN (normalizeSettings rt (st\<lparr>interval := Some (IntervalNumber (Fin (15 / 2)))\<rparr>)) = Fin (15 / 2)
       \<and> isFinite (intervalN (normalizeSettings rt st)) \<and> gt_zero (intervalN (normalizeSettings rt st))"
proof -
  have gen: "intervalN (normalizeSettings rt (st\<lparr>interval := Some w\<rparr>)) =
           (if isFinite (numericValue rt w) \<and> gt_zero (numericValue rt w)
            then numericValue rt w else Fin 10)" for w
    by (cases w) (simp_all add: normalizeSettings_def numericValue_def)
  have none: "intervalN (normalizeSettings rt (st\<lparr>interval := None\<rparr>)) = Fin 10"
    by (simp add: normalizeSettings_def)
  have pos: "isFinite (intervalN (normalizeSettings rt st)) \<and> gt_zero (intervalN (normalizeSettings rt st))"
    by (simp add: normalizeSettings_def split: option.splits interval_value.splits)
  show ?thesis
    using gen none pos five abc by (simp add: numericValue_def)
qed

theorem normalizeSettings_interval_witness:
  "Number sampleRuntime ''5'' = Fin 5 \<and> Number sampleRuntime ''abc'' = NaN
   \<and> intervalN (normalizeSettings sampleRuntime (sampleSettings\<lparr>interval := Some (IntervalString ''5'')\<rparr>)) = Fin 5
   \<and> intervalN (normalizeSettings sampleRuntime (sampleSettings\<lparr>interval := Some (IntervalString ''abc'')\<rparr>)) = Fin 10
   \<and> intervalN (normalizeSettings sampleRuntime (sampleSettings\<lparr>interval := Some (IntervalNumber (Fin (15 / 2)))\<rparr>)) = Fin (15 / 2)
   \<and> intervalN (normalizeSettings sampleRuntime (sampleSettings\<lparr>interval := None\<rparr>)) = Fin 10"
  using normalizeSettings_interval [OF sampleNumber_5 sampleNumber_abc,
      where st = sampleSettings and v = "IntervalNumber (Fin 1)"]
    sampleNumber_5 sampleNumber_abc
  by simp

section \<open>Substrings\<close>

lemma startsWith_iff: "startsWith s k \<longleftrightarrow> (\<exists>q. s = k @ q)"
  by (induction s k rule: startsWith.induct) auto

text \<open>\<open>includes_str s k\<close> holds exactly when \<open>k\<close> occurs in \<open>s\<close> as a contiguous substring.\<close>

lemma includes_str_iff: "includes_str s k \<longleftrightarrow> (\<exists>p q. s = p @ k @ q)"
proof (induction s)
  case Nil
  then show ?case by auto
next
  case (Cons c cs)
  show ?case
  proof
    assume "includes_str (c # cs) k"
    then consider "startsWith (c # cs) k" | "includes_str cs k" by auto
    then show "\<exists>p q. c # cs = p @ k @ q"
    proof cases
      case 1
      then obtain q where "c # cs = k @ q" by (auto simp: startsWith_iff)
      then have "c # cs = [] @ k @ q" by simp
      then show ?thesis by blast
    next
      case 2
      then obtain p q where "cs = p @ k @ q" using Cons.IH by blast
      then have "c # cs = (c # p) @ k @ q" by simp
      then show ?thesis by blast
    qed
  next
    assume "\<exists>p q. c # cs = p @ k @ q"
    then obtain p q where pq: "c # cs = p @ k @ q" by blast
    show "includes_str (c # cs) k"
    proof (cases p)
      case Nil
      with pq have "startsWith (c # cs) k" by (auto simp: startsWith_iff)
      then show ?thesis by simp
    next
      case (Cons a p')
      with pq have "cs = p' @ k @ q" by simp
      then have "includes_str cs k" using Cons.IH by blast
      then show ?thesis by simp
    qed
  qed
qed

section \<open>Classification of standard error\<close>

lemma errorTitleOf_first:
  "i < length tbl \<Longrightarrow> includes_str msg (fst (tbl ! i)) \<Longrightarrow>
   (\<forall>j<i. \<not> includes_str msg (fst (tbl ! j))) \<Longrightarrow> errorTitleOf tbl msg = snd (tbl ! i)"
proof (induction tbl msg arbitrary: i rule: errorTitleOf.induct)
  case (1 errorString)
  then show ?case by simp
next
  case (2 key label rest errorString)
  show ?case
  proof (cases i)
    case 0
    with 2 show ?thesis by simp
  next
    case (Suc i')
    with 2(3,4) have no: "\<not> includes_str errorString key" by fastforce
    have "\<forall>j<i'. \<not> includes_str errorString (fst (rest ! j))"
      using 2(4) Suc by fastforce
    with 2 Suc no show ?thesis by simp
  qed
qed

lemma errorTitleOf_none:
  "(\<forall>key\<in>set (map fst tbl). \<not> includes_str msg key) \<Longrightarrow> errorTitleOf tbl msg = otherIssue"
  by (induction tbl msg rule: errorTitleOf.induct) auto

lemma setTitle_stderrHandler:
  "SetTitle i t \<in> set (stderrHandler e data) \<longleftrightarrow>
     i = action_id e \<and> t = errorTitleOf pythonErrorMap (errorStringOf data)"
  by (auto simp: stderrHandler_def Let_def)

text \<open>
  Claim C4, as stated, at an explicit chunk: the message contains
  \<^verbatim>\<open>ZeroDivisionError\<close>, and the title set is the name-error one, because
  \<^verbatim>\<open>NameError\<close> stands earlier in the table and the message contains it too.
\<close>

theorem stderr_zero_division_anywhere_counterexample:
  "includes_str (errorStringOf ''ZeroDivisionError raised while handling NameError'')
     ''ZeroDivisionError''
   \<and> errorTitleOf pythonErrorMap
        (errorStringOf ''ZeroDivisionError raised while handling NameError'')
       = title3 ''Python'' ''Name'' ''Error''
   \<and> title3 ''Python'' ''Name'' ''Error'' \<noteq> title3 ''Python'' ''ZeroDiv'' ''Error''
   \<and> stderrHandler (eventOf ''A'' sampleSettings)
        ''ZeroDivisionError raised while handling NameError''
       = [Log Error ''stderr: ZeroDivisionError raised while handling NameError'',
          SetImage ''A'' ''imgs/actions/pyServiceIconFail.png'',
          SetTitle ''A'' (title3 ''Python'' ''Name'' ''Error''),
          ShowAlert ''A'']"
  by (simp add: stderrHandler_def errorStringOf_def trim_def is_space_def pythonErrorMap_def
      newline_def carriage_return_def title3_def otherIssue_def eventOf_def)

text \<open>
  Claim C4, amended. For every chunk of standard error, the title set is that of the
  message (the chunk trimmed, its line breaks collapsed to spaces) under the table
  scanned in its fixed order, the first key the message includes deciding: a message
  that includes \<^verbatim>\<open>ZeroDivisionError\<close> and none of the four keys before it in the table
  (\<^verbatim>\<open>SyntaxError\<close>, \<^verbatim>\<open>NameError\<close>, \<^verbatim>\<open>TypeError\<close>, \<^verbatim>\<open>ValueError\<close>) gets the
  division-error title; a message that includes no key of the table gets the generic
  "other issue" title.
\<close>

theorem stderr_classification:
  "(includes_str msg ''ZeroDivisionError'' \<and> \<not> includes_str msg ''SyntaxError''
      \<and> \<not> includes_str msg ''NameError'' \<and> \<not> includes_str msg ''TypeError''
      \<and> \<not> includes_str msg ''ValueError''
      \<longrightarrow> errorTitleOf pythonErrorMap msg = title3 ''Python'' ''ZeroDiv'' ''Error'')
   \<and> ((\<forall>key\<in>set (map fst pythonErrorMap). \<not> includes_str msg key)
      \<longrightarrow> errorTitleOf pythonErrorMap msg = otherIssue)
   \<and> (\<forall>i<length pythonErrorMap.
        includes_str msg (fst (pythonErrorMap ! i))
        \<and> (\<forall>j<i. \<not> includes_str msg (fst (pythonErrorMap ! j)))
        \<longrightarrow> errorTitleOf pythonErrorMap msg = snd (pythonErrorMap ! i))
   \<and> (SetTitle i t \<in> set (stderrHandler e data) \<longleftrightarrow>
        i = action_id e \<and> t = errorTitleOf pythonErrorMap (errorStringOf data))"
proof -
  have zero: "includes_str msg ''ZeroDivisionError'' \<and> \<not> includes_str msg ''SyntaxError''
      \<and> \<not> includes_str msg ''NameError'' \<and> \<not> includes_str msg ''TypeError''
      \<and> \<not> includes_str msg ''ValueError''
      \<longrightarrow> errorTitleOf pythonErrorMap msg = title3 ''Python'' ''ZeroDiv'' ''Error''"
    by (simp add: pythonErrorMap_def)
  have none: "(\<forall>key\<in>set (map fst pythonErrorMap). \<not> includes_str msg key)
      \<longrightarrow> errorTitleOf pythonErrorMap msg = otherIssue"
    using errorTitleOf_none by blast
  have first: "\<forall>i<length pythonErrorMap.
        includes_str msg (fst (pythonErrorMap ! i))
        \<and> (\<forall>j<i. \<not> includes_str msg (fst (pythonErrorMap ! j)))
        \<longrightarrow> errorTitleOf pythonErrorMap msg = snd (pythonErrorMap ! i)"
    using errorTitleOf_first by blast
  show ?thesis
    using zero none first setTitle_stderrHandler by blast
qed

theorem stderr_classification_witness:
  "includes_str
     (errorStringOf (''Traceback (most recent call last):'' @ [carriage_return, newline]
        @ ''ZeroDivisionError: division by zero'' @ [newline]))
     ''ZeroDivisionError''
   \<and> errorTitleOf pythonErrorMap
       (errorStringOf (''Traceback (most recent call last):'' @ [carriage_return, newline]
          @ ''ZeroDivisionError: division by zero'' @ [newline]))
       = title3 ''Python'' ''ZeroDiv'' ''Error''
   \<and> list_all (\<lambda>key. \<not> includes_str (errorStringOf ''boom'') key) (map fst pythonErrorMap)
   \<and> errorTitleOf pythonErrorMap (errorStringOf ''boom'') = otherIssue"
proof -
  let ?m = "errorStringOf (''Traceback (most recent call last):'' @ [carriage_return, newline]
        @ ''ZeroDivisionError: division by zero'' @ [newline])"
  have m: "?m = ''Traceback (most recent call last): ZeroDivisionError: division by zero''"
    by (simp add: errorStringOf_def trim_def is_space_def newline_def carriage_return_def)
  have has: "includes_str ?m ''ZeroDivisionError''"
    unfolding m by simp
  have hasnt: "\<not> includes_str ?m ''SyntaxError'' \<and> \<not> includes_str ?m ''NameError''
      \<and> \<not> includes_str ?m ''TypeError'' \<and> \<not> includes_str ?m ''ValueError''"
    unfolding m by simp
  have zero: "errorTitleOf pythonErrorMap ?m = title3 ''Python'' ''ZeroDiv'' ''Error''"
    using stderr_classification [of ?m] has hasnt by blast
  have b: "errorStringOf ''boom'' = ''boom''"
    by (simp add: errorStringOf_def trim_def is_space_def newline_def carriage_return_def)
  have nokey: "list_all (\<lambda>key. \<not> includes_str (errorStringOf ''boom'') key) (map fst pythonErrorMap)"
    unfolding b by (simp add: pythonErrorMap_def)
  then have "\<forall>key\<in>set (map fst pythonErrorMap). \<not> includes_str (errorStringOf ''boom'') key"
    by (simp add: list_all_iff)
  then have other: "errorTitleOf pythonErrorMap (errorStringOf ''boom'') = otherIssue"
    using stderr_classification [of "errorStringOf ''boom''"] by blast
  show ?thesis
    using has zero nokey other by blast
qed

section \<open>Handling of standard output\<close>

text \<open>
  Claim C8. For every chunk of standard output, in the background service's handler as
  in the script action's: the title is set, to the trimmed chunk, exactly when
  \<^verbatim>\<open>displayValues\<close> is set; the image is set to the one \<open>imageFor\<close> selects, whatever
  \<^verbatim>\<open>displayValues\<close> is: \<^verbatim>\<open>image1\<close> if the first pair matches (the image is truthy and
  the trimmed chunk is its value), else \<^verbatim>\<open>image2\<close> if the second pair matches, else
  the idle image. Neither effect reads what the other depends on.
\<close>

theorem stdout_handling:
  "(SetTitle i t \<in> set (stdoutHandler rt e data) \<longleftrightarrow>
      displayValues (settings e) = Some True \<and> i = action_id e \<and> t = trim data)
   \<and> (SetImage i img \<in> set (stdoutHandler rt e data) \<longleftrightarrow>
        i = action_id e \<and>
        img = imageFor (image1 (settings e)) (value1 (settings e))
                (image2 (settings e)) (value2 (settings e))
                ''imgs/actions/pyServiceIcon.png'' (trim data))
   \<and> (SetTitle i t \<in> set (scriptStdoutHandler se data) \<longleftrightarrow>
        script_displayValues (script_settings se) = Some True
        \<and> i = script_action_id se \<and> t = trim data)
   \<and> (SetImage i img \<in> set (scriptStdoutHandler se data) \<longleftrightarrow>
        i = script_action_id se \<and>
        img = imageFor (script_image1 (script_settings se)) (script_value1 (script_settings se))
                (script_image2 (script_settings se)) (script_value2 (script_settings se))
                ''imgs/actions/gemini_icons/pyFileLoaded.png'' (trim data))
   \<and> (truthy_str imgA \<and> out = orEmpty valA
        \<longrightarrow> imageFor imgA valA imgB valB idle out = orEmpty imgA)
   \<and> (\<not> (truthy_str imgA \<and> out = orEmpty valA) \<and> truthy_str imgB \<and> out = orEmpty valB
        \<longrightarrow> imageFor imgA valA imgB valB idle out = orEmpty imgB)
   \<and> (\<not> (truthy_str imgA \<and> out = orEmpty valA) \<and> \<not> (truthy_str imgB \<and> out = orEmpty valB)
        \<longrightarrow> imageFor imgA valA imgB valB idle out = idle)"
proof -
  have title: "SetTitle i t \<in> set (stdoutHandler rt e data) \<longleftrightarrow>
      displayValues (settings e) = Some True \<and> i = action_id e \<and> t = trim data"
    by (auto simp: stdoutHandler_def normalizeSettings_def Let_def)
  have image: "SetImage i img \<in> set (stdoutHandler rt e data) \<longleftrightarrow>
        i = action_id e \<and>
        img = imageFor (image1 (settings e)) (value1 (settings e))
                (image2 (settings e)) (value2 (settings e))
                ''imgs/actions/pyServiceIcon.png'' (trim data)"
    by (auto simp: stdoutHandler_def normalizeSettings_def Let_def)
  have stitle: "SetTitle i t \<in> set (scriptStdoutHandler se data) \<longleftrightarrow>
        script_displayValues (script_settings se) = Some True
        \<and> i = script_action_id se \<and> t = trim data"
    by (auto simp: scriptStdoutHandler_def Let_def)
  have simage: "SetImage i img \<in> set (scriptStdoutHandler se data) \<longleftrightarrow>
        i = script_action_id se \<and>
        img = imageFor (script_image1 (script_settings se)) (script_value1 (script_settings se))
                (script_image2 (script_settings se)) (script_value2 (script_settings se))
                ''imgs/actions/gemini_icons/pyFileLoaded.png'' (trim data)"
    by (auto simp: scriptStdoutHandler_def Let_def)
  have sel: "(truthy_str imgA \<and> out = orEmpty valA
        \<longrightarrow> imageFor imgA valA imgB valB idle out = orEmpty imgA)
   \<and> (\<not> (truthy_str imgA \<and> out = orEmpty valA) \<and> truthy_str imgB \<and> out = orEmpty valB
        \<longrightarrow> imageFor imgA valA imgB valB idle out = orEmpty imgB)
   \<and> (\<not> (truthy_str imgA \<and> out = orEmpty valA) \<and> \<not> (truthy_str imgB \<and> out = orEmpty valB)
        \<longrightarrow> imageFor imgA valA imgB valB idle out = idle)"
    by (simp add: imageFor_def)
  show ?thesis
    using title image stitle simage sel by blast
qed

theorem stdout_handling_witness:
  "truthy_str (Some ''imgs/on.png'') \<and> trim ('' on'' @ [newline]) = orEmpty (Some ''on'')
   \<and> imageFor (Some ''imgs/on.png'') (Some ''on'') (Some ''imgs/off.png'') (Some ''off'')
        ''imgs/actions/pyServiceIcon.png'' (trim ('' on'' @ [newline])) = ''imgs/on.png''
   \<and> imageFor (Some ''imgs/on.png'') (Some ''on'') (Some ''imgs/off.png'') (Some ''off'')
        ''imgs/actions/pyServiceIcon.png'' (trim ''off'') = ''imgs/off.png''
   \<and> imageFor (Some ''imgs/on.png'') (Some ''on'') (Some ''imgs/off.png'') (Some ''off'')
        ''imgs/actions/pyServiceIcon.png'' (trim ''17'') = ''imgs/actions/pyServiceIcon.png''
   \<and> stdoutHandler sampleRuntime (eventOf ''A'' sampleSettings) ('' on'' @ [newline])
       = [Log Info ''stdout: on'', SetTitle ''A'' ''on'', SetImage ''A'' ''imgs/on.png'']
   \<and> stdoutHandler sampleRuntime (eventOf ''A'' (sampleSettings\<lparr>displayValues := None\<rparr>)) ''17''
       = [Log Info ''stdout: 17'', SetImage ''A'' ''imgs/actions/pyServiceIcon.png'']"
proof -
  have t1: "trim ('' on'' @ [newline]) = ''on''" and t2: "trim ''off'' = ''off''"
    and t3: "trim ''17'' = ''17''"
    by (simp_all add: trim_def is_space_def newline_def)
  have h1: "truthy_str (Some ''imgs/on.png'') \<and> trim ('' on'' @ [newline]) = orEmpty (Some ''on'')"
    using t1 by simp
  have h2: "\<not> (truthy_str (Some ''imgs/on.png'') \<and> trim ''off'' = orEmpty (Some ''on''))
      \<and> truthy_str (Some ''imgs/off.png'') \<and> trim ''off'' = orEmpty (Some ''off'')"
    using t2 by simp
  have h3: "\<not> (truthy_str (Some ''imgs/on.png'') \<and> trim ''17'' = orEmpty (Some ''on''))
      \<and> \<not> (truthy_str (Some ''imgs/off.png'') \<and> trim ''17'' = orEmpty (Some ''off''))"
    using t3 by simp
  have c1: "imageFor (Some ''imgs/on.png'') (Some ''on'') (Some ''imgs/off.png'') (Some ''off'')
        ''imgs/actions/pyServiceIcon.png'' (trim ('' on'' @ [newline])) = ''imgs/on.png''"
    using stdout_handling [where imgA = "Some ''imgs/on.png''" and valA = "Some ''on''"
        and out = "trim ('' on'' @ [newline])"] h1 by simp
  have c2: "imageFor (Some ''imgs/on.png'') (Some ''on'') (Some ''imgs/off.png'') (Some ''off'')
        ''imgs/actions/pyServiceIcon.png'' (trim ''off'') = ''imgs/off.png''"
    using stdout_handling [where imgA = "Some ''imgs/on.png''" and valA = "Some ''on''"
        and imgB = "Some ''imgs/off.png''" and valB = "Some ''off''"
        and out = "trim ''off''"] h2 by simp
  have c3: "imageFor (Some ''imgs/on.png'') (Some ''on'') (Some ''imgs/off.png'') (Some ''off'')
        ''imgs/actions/pyServiceIcon.png'' (trim ''17'') = ''imgs/actions/pyServiceIcon.png''"
    using stdout_handling [where imgA = "Some ''imgs/on.png''" and valA = "Some ''on''"
        and imgB = "Some ''imgs/off.png''" and valB = "Some ''off''"
        and out = "trim ''17''"] h3 by blast
  have r1: "stdoutHandler sampleRuntime (eventOf ''A'' sampleSettings) ('' on'' @ [newline])
       = [Log Info ''stdout: on'', SetTitle ''A'' ''on'', SetImage ''A'' ''imgs/on.png'']"
    using t1 by (simp add: stdoutHandler_def normalizeSettings_def eventOf_def sampleSettings_def
        imageFor_def Let_def)
  have r2: "stdoutHandler sampleRuntime (eventOf ''A'' (sampleSettings\<lparr>displayValues := None\<rparr>)) ''17''
       = [Log Info ''stdout: 17'', SetImage ''A'' ''imgs/actions/pyServiceIcon.png'']"
    using t3 by (simp add: stdoutHandler_def normalizeSettings_def eventOf_def sampleSettings_def
        imageFor_def Let_def)
  show ?thesis
    using h1 c1 c2 c3 r1 r2 by blast
qed

section \<open>The loops of the service\<close>

lemma emit_fields [simp]:
  "trackedActions (emit cs s) = trackedActions s" "state (emit cs s) = state s"
  "timers (emit cs s) = timers s" "nextTimer (emit cs s) = nextTimer s"
  "trace (emit cs s) = trace s @ cs"
  by (simp_all add: emit_def)

lemma emit_Nil [simp]: "emit [] s = s"
  by (simp add: emit_def)

lemma clearInterval_fields [simp]:
  "trackedActions (clearInterval h s) = trackedActions s" "state (clearInterval h s) = state s"
  "timers (clearInterval h s) = filter (\<lambda>p. fst p \<noteq> h) (timers s)"
  "nextTimer (clearInterval h s) = nextTimer s" "trace (clearInterval h s) = trace s"
  by (simp_all add: clearInterval_def)

lemma clearTimerOf_fields [simp]:
  "trackedActions (clearTimerOf t s) = trackedActions s" "state (clearTimerOf t s) = state s"
  "timers (clearTimerOf t s) = filter (\<lambda>p. Some (fst p) \<noteq> timerId t) (timers s)"
  "nextTimer (clearTimerOf t s) = nextTimer s" "trace (clearTimerOf t s) = trace s"
  by (simp_all add: clearTimerOf_def split: option.splits)

lemma createTimer_fields [simp]:
  "fst (createTimer rt e s) = nextTimer s"
  "trackedActions (snd (createTimer rt e s)) = trackedActions s"
  "state (snd (createTimer rt e s)) = state s"
  "timers (snd (createTimer rt e s)) =
     timers s @ [(nextTimer s,
       \<lparr>timer_ev = e,
        delayMs = timeoutDelay (times rt (intervalN (normalizeSettings rt (settings e))) (Fin 1000))\<rparr>)]"
  "nextTimer (snd (createTimer rt e s)) = Suc (nextTimer s)"
  "trace (snd (createTimer rt e s)) = trace s"
  by (simp_all add: createTimer_def setInterval_def Let_def)

lemma startEach_frame:
  "trackedActions (snd (startEach rt ts s)) = trackedActions s
   \<and> state (snd (startEach rt ts s)) = state s
   \<and> trace (snd (startEach rt ts s)) = trace s
   \<and> nextTimer (snd (startEach rt ts s)) = nextTimer s + length ts"
  by (induction ts arbitrary: s) (simp_all add: Let_def case_prod_beta)

lemma startEach_entries:
  "map id_tracked (fst (startEach rt ts s)) = map id_tracked ts
   \<and> map ev (fst (startEach rt ts s)) = map ev ts
   \<and> map timerId (fst (startEach rt ts s)) = map Some [nextTimer s ..< nextTimer s + length ts]"
proof (induction ts arbitrary: s)
  case Nil
  then show ?case by simp
next
  case (Cons t ts)
  let ?s2 = "snd (createTimer rt (ev t) (clearTimerOf t s))"
  have n: "nextTimer ?s2 = Suc (nextTimer s)" by simp
  have "[nextTimer s ..< nextTimer s + length (t # ts)]
        = nextTimer s # [Suc (nextTimer s) ..< Suc (nextTimer s) + length ts]"
    by (simp add: upt_rec)
  with Cons [of ?s2] n show ?case
    by (simp add: Let_def case_prod_beta)
qed

lemma handles_startEach:
  "handles (fst (startEach rt ts s)) = [nextTimer s ..< nextTimer s + length ts]"
proof (induction ts arbitrary: s)
  case Nil
  then show ?case by simp
next
  case (Cons t ts)
  let ?s2 = "snd (createTimer rt (ev t) (clearTimerOf t s))"
  have "[nextTimer s ..< nextTimer s + length (t # ts)]
        = nextTimer s # [Suc (nextTimer s) ..< Suc (nextTimer s) + length ts]"
    by (simp add: upt_rec)
  with Cons [of ?s2] show ?case
    by (simp add: Let_def case_prod_beta)
qed


lemma filter_keys: "map fst (filter (\<lambda>p. P (fst p)) xs) = filter P (map fst xs)"
  by (induction xs) auto

lemma startEach_timers:
  "list_all (\<lambda>h. h < nextTimer s) (handles ts) \<Longrightarrow>
   map fst (timers (snd (startEach rt ts s)))
     = filter (\<lambda>h. h \<notin> set (handles ts)) (map fst (timers s))
       @ [nextTimer s ..< nextTimer s + length ts]"
proof (induction ts arbitrary: s)
  case Nil
  then show ?case by simp
next
  case (Cons t ts)
  let ?s2 = "snd (createTimer rt (ev t) (clearTimerOf t s))"
  from Cons.prems have rest: "list_all (\<lambda>h. h < nextTimer s) (handles ts)"
    by (auto split: option.splits)
  then have rest': "list_all (\<lambda>h. h < nextTimer ?s2) (handles ts)"
    by (auto simp: list_all_iff)
  have fresh: "nextTimer s \<notin> set (handles ts)"
    using rest by (auto simp: list_all_iff)
  have keys2: "map fst (timers ?s2)
      = filter (\<lambda>h. Some h \<noteq> timerId t) (map fst (timers s)) @ [nextTimer s]"
    by (simp add: filter_keys [where P = "\<lambda>h. Some h \<noteq> timerId t"])
  have "map fst (timers (snd (startEach rt (t # ts) s)))
      = map fst (timers (snd (startEach rt ts ?s2)))"
    by (simp add: Let_def case_prod_beta)
  also have "\<dots> = filter (\<lambda>h. h \<notin> set (handles ts)) (map fst (timers ?s2))
       @ [nextTimer ?s2 ..< nextTimer ?s2 + length ts]"
    using Cons.IH [OF rest'] .
  also have "\<dots> = filter (\<lambda>h. h \<notin> set (handles (t # ts))) (map fst (timers s))
       @ [nextTimer s ..< nextTimer s + length (t # ts)]"
  proof -
    have a: "filter (\<lambda>h. h \<notin> set (handles ts)) (map fst (timers ?s2))
        = filter (\<lambda>h. h \<notin> set (handles (t # ts))) (map fst (timers s)) @ [nextTimer s]"
      unfolding keys2 using fresh
      by (cases "timerId t") (auto intro: filter_cong)
    have b: "[nextTimer s ..< nextTimer s + length (t # ts)]
        = nextTimer s # [Suc (nextTimer s) ..< Suc (nextTimer s) + length ts]"
      by (simp add: upt_rec)
    show ?thesis using a b by simp
  qed
  finally show ?case .
qed

lemma stopEach_frame:
  "trackedActions (snd (stopEach ts s)) = trackedActions s
   \<and> state (snd (stopEach ts s)) = state s
   \<and> trace (snd (stopEach ts s)) = trace s
   \<and> nextTimer (snd (stopEach ts s)) = nextTimer s"
  by (induction ts arbitrary: s) (simp_all add: case_prod_beta split: option.splits)

lemma stopEach_entries:
  "map id_tracked (fst (stopEach ts s)) = map id_tracked ts
   \<and> map ev (fst (stopEach ts s)) = map ev ts
   \<and> map timerId (fst (stopEach ts s)) = replicate (length ts) None"
  by (induction ts arbitrary: s) (simp_all add: case_prod_beta split: option.splits)

lemma handles_stopEach: "handles (fst (stopEach ts s)) = []"
  by (induction ts arbitrary: s) (simp_all add: case_prod_beta split: option.splits)

lemma stopEach_timers:
  "timers (snd (stopEach ts s)) = filter (\<lambda>p. fst p \<notin> set (handles ts)) (timers s)"
proof (induction ts arbitrary: s)
  case Nil
  then show ?case by simp
next
  case (Cons t ts)
  show ?case
  proof (cases "timerId t")
    case None
    then show ?thesis using Cons.IH [of s] by (simp add: case_prod_beta)
  next
    case (Some h)
    then show ?thesis using Cons.IH [of "clearInterval h s"]
      by (auto simp: case_prod_beta intro: filter_cong)
  qed
qed

lemma start_fields:
  "state (start rt e s) = running"
  "trackedActions (start rt e s) = fst (startEach rt (trackedActions s) (emit [Log Info ''starting Background Service''] s))"
  "timers (start rt e s) = timers (snd (startEach rt (trackedActions s) (emit [Log Info ''starting Background Service''] s)))"
  "nextTimer (start rt e s) = nextTimer s + length (trackedActions s)"
  "trace (start rt e s) = trace s @ [Log Info ''starting Background Service'',
      SetImage (action_id e) ''imgs/actions/pyServiceRunning.png'']"
  by (simp_all add: start_def Let_def case_prod_beta startEach_frame)

lemma stop_fields:
  "state (stop e s) = stopped"
  "trackedActions (stop e s) = fst (stopEach (trackedActions s) (emit [Log Info ''stopping Background Service''] s))"
  "timers (stop e s) = filter (\<lambda>p. fst p \<notin> set (handles (trackedActions s))) (timers s)"
  "nextTimer (stop e s) = nextTimer s"
  "trace (stop e s) = trace s @ [Log Info ''stopping Background Service'',
      Log Info (''stopping execution of the action '' @ manifestId e @ '', id: '' @ action_id e),
      SetImage (action_id e) ''imgs/actions/pyServiceStopped.png'']"
  by (simp_all add: stop_def Let_def case_prod_beta stopEach_frame stopEach_timers)

section \<open>Registering and unregistering\<close>

lemma findIndex_SomeD:
  "findIndex P xs = Some i \<Longrightarrow> i < length xs \<and> P (xs ! i) \<and> (\<forall>j<i. \<not> P (xs ! j))"
proof (induction xs arbitrary: i)
  case Nil
  then show ?case by simp
next
  case (Cons x xs)
  show ?case
  proof (cases "P x")
    case True
    with Cons.prems show ?thesis by simp
  next
    case False
    with Cons.prems obtain k where k: "findIndex P xs = Some k" "i = Suc k" by auto
    from Cons.IH [OF k(1)] False k(2) show ?thesis
      by (auto simp: less_Suc_eq_0_disj)
  qed
qed

lemma findIndex_None_iff: "findIndex P xs = None \<longleftrightarrow> (\<forall>x\<in>set xs. \<not> P x)"
  by (induction xs) auto

lemma handles_append: "handles (xs @ ys) = handles xs @ handles ys"
  by (induction xs) (auto split: option.splits)

lemma handles_split:
  "i < length ts \<Longrightarrow>
   handles ts = handles (take i ts) @ handles [ts ! i] @ handles (drop (Suc i) ts)"
proof -
  assume "i < length ts"
  then have "ts = take i ts @ [ts ! i] @ drop (Suc i) ts"
    by (simp add: id_take_nth_drop)
  then have "handles ts = handles (take i ts @ [ts ! i] @ drop (Suc i) ts)" by simp
  then show ?thesis by (simp only: handles_append)
qed

lemma handles_update:
  "i < length ts \<Longrightarrow>
   handles (ts[i := x]) = handles (take i ts) @ handles [x] @ handles (drop (Suc i) ts)"
proof -
  assume "i < length ts"
  then have "ts[i := x] = take i ts @ [x] @ drop (Suc i) ts"
    by (simp add: upd_conv_take_nth_drop)
  then show ?thesis by (simp only: handles_append)
qed

lemma registerAction_new:
  assumes "findIndex (\<lambda>a. id_tracked a = action_id e) (trackedActions s) = None"
  shows "registerAction rt e s =
    (emit [Log Info ''checking if action is already tracked''] s)
      \<lparr>trackedActions :=
         trackedActions s @ [\<lparr>id_tracked = action_id e, ev = e, timerId = None\<rparr>]\<rparr>"
  using assms by (simp add: registerAction_def Let_def)

lemma registerAction_existing:
  assumes "findIndex (\<lambda>a. id_tracked a = action_id e) (trackedActions s) = Some i"
  shows "trackedActions (registerAction rt e s) =
      (trackedActions s)[i := (trackedActions s ! i)
         \<lparr>ev := e,
          timerId := (if state s = running then Some (nextTimer s)
                      else timerId (trackedActions s ! i))\<rparr>]"
    and "timers (registerAction rt e s) =
      filter (\<lambda>p. Some (fst p) \<noteq> timerId (trackedActions s ! i)) (timers s)
      @ (if state s = running
         then [(nextTimer s,
                \<lparr>timer_ev = e,
                 delayMs = timeoutDelay
                   (times rt (intervalN (normalizeSettings rt (settings e))) (Fin 1000))\<rparr>)]
         else [])"
    and "nextTimer (registerAction rt e s) =
      (if state s = running then Suc (nextTimer s) else nextTimer s)"
    and "state (registerAction rt e s) = state s"
    and "trace (registerAction rt e s) =
      trace s @ [Log Info ''checking if action is already tracked'',
                 Log Info ''action already tracked - settings updated'']"
  using assms by (simp_all add: registerAction_def Let_def case_prod_beta)

lemma unregisterAction_unknown:
  assumes "findIndex (\<lambda>a. id_tracked a = action_id e) (trackedActions s) = None"
  shows "unregisterAction e s = s"
  using assms by (simp add: unregisterAction_def)

lemma unregisterAction_tracked:
  assumes "findIndex (\<lambda>a. id_tracked a = action_id e) (trackedActions s) = Some i"
  shows "trackedActions (unregisterAction e s) =
      take i (trackedActions s) @ drop (Suc i) (trackedActions s)"
    and "timers (unregisterAction e s) =
      filter (\<lambda>p. Some (fst p) \<noteq> timerId (trackedActions s ! i)) (timers s)"
    and "nextTimer (unregisterAction e s) = nextTimer s"
    and "state (unregisterAction e s) = state s"
    and "trace (unregisterAction e s) =
      trace s @ (case timerId (trackedActions s ! i) of
                   Some h \<Rightarrow> [Log Info (''stopping execution of the action '' @ manifestId e
                                          @ '', id: '' @ action_id e)]
                 | None \<Rightarrow> [])"
  using assms by (simp_all add: unregisterAction_def Let_def split: option.splits)

section \<open>The bookkeeping of reachable states\<close>

lemma consistent_initial: "consistent initial"
  by (simp add: consistent_def initial_def)

lemma consistent_start:
  assumes "consistent s"
  shows "consistent (start rt e s)"
proof -
  let ?s0 = "emit [Log Info ''starting Background Service''] s"
  let ?ts = "trackedActions s"
  let ?n = "nextTimer s"
  from assms have ids: "distinct (map id_tracked ?ts)"
    and keys: "set (map fst (timers s)) = set (handles ?ts)"
    and below: "list_all (\<lambda>h. h < ?n) (handles ?ts)"
    by (simp_all add: consistent_def)
  have h: "handles (trackedActions (start rt e s)) = [?n ..< ?n + length ?ts]"
    by (simp add: start_fields handles_startEach)
  have "filter (\<lambda>h. h \<notin> set (handles ?ts)) (map fst (timers s)) = []"
    using keys by (auto simp: filter_empty_conv)
  then have k: "map fst (timers (start rt e s)) = [?n ..< ?n + length ?ts]"
    using startEach_timers [of ?s0 ?ts rt] below by (simp add: start_fields)
  have i: "map id_tracked (trackedActions (start rt e s)) = map id_tracked ?ts"
    by (simp add: start_fields startEach_entries)
  show ?thesis
    unfolding consistent_def h k i
    using ids by (simp add: start_fields list_all_iff)
qed

lemma consistent_stop:
  assumes "consistent s"
  shows "consistent (stop e s)"
proof -
  from assms have ids: "distinct (map id_tracked (trackedActions s))"
    and keys: "set (map fst (timers s)) = set (handles (trackedActions s))"
    by (simp_all add: consistent_def)
  have t: "timers (stop e s) = []"
    using keys by (auto simp: stop_fields filter_empty_conv)
  show ?thesis
    unfolding consistent_def t
    using ids by (simp add: stop_fields handles_stopEach stopEach_entries)
qed

lemma consistent_unregister:
  assumes "consistent s"
  shows "consistent (unregisterAction e s)"
proof (cases "findIndex (\<lambda>a. id_tracked a = action_id e) (trackedActions s)")
  case None
  then show ?thesis using assms by (simp add: unregisterAction_unknown)
next
  case (Some i)
  let ?ts = "trackedActions s"
  from findIndex_SomeD [OF Some] have i: "i < length ?ts" by simp
  note f = unregisterAction_tracked [OF Some]
  from assms have ids: "distinct (map id_tracked ?ts)"
    and dh: "distinct (handles ?ts)"
    and dk: "distinct (map fst (timers s))"
    and keys: "set (map fst (timers s)) = set (handles ?ts)"
    and below: "list_all (\<lambda>h. h < nextTimer s) (handles ?ts)"
    and run: "state s = running \<or> handles ?ts = []"
    by (simp_all add: consistent_def)
  have hs: "handles ?ts = handles (take i ?ts) @ handles [?ts ! i] @ handles (drop (Suc i) ?ts)"
    using handles_split [OF i] .
  have h': "handles (trackedActions (unregisterAction e s))
      = handles (take i ?ts) @ handles (drop (Suc i) ?ts)"
    by (simp add: f handles_append)
  have k': "map fst (timers (unregisterAction e s))
      = filter (\<lambda>h. Some h \<noteq> timerId (?ts ! i)) (map fst (timers s))"
    by (simp add: f filter_keys [where P = "\<lambda>h. Some h \<noteq> timerId (?ts ! i)"])
  have c1: "distinct (map id_tracked (trackedActions (unregisterAction e s)))"
  proof -
    have "map id_tracked ?ts = map id_tracked (take i ?ts) @ map id_tracked (drop i ?ts)"
      by (metis append_take_drop_id map_append)
    moreover have "drop i ?ts = ?ts ! i # drop (Suc i) ?ts"
      using i by (simp add: Cons_nth_drop_Suc)
    ultimately show ?thesis using ids by (auto simp: f)
  qed
  have c2: "distinct (handles (trackedActions (unregisterAction e s)))"
    using dh unfolding h' hs by auto
  have c3: "distinct (map fst (timers (unregisterAction e s)))"
    unfolding k' using dk by simp
  have c4: "set (map fst (timers (unregisterAction e s)))
      = set (handles (trackedActions (unregisterAction e s)))"
    unfolding k' h' using keys dh unfolding hs
    by (cases "timerId (?ts ! i)") auto
  have c5: "list_all (\<lambda>h. h < nextTimer (unregisterAction e s))
      (handles (trackedActions (unregisterAction e s)))"
    unfolding h' using below unfolding hs by (simp add: f)
  have c6: "state (unregisterAction e s) = running
      \<or> handles (trackedActions (unregisterAction e s)) = []"
    unfolding h' using run unfolding hs by (auto simp: f)
  show ?thesis
    unfolding consistent_def using c1 c2 c3 c4 c5 c6 by blast
qed

lemma consistent_register:
  assumes "consistent s"
  shows "consistent (registerAction rt e s)"
proof (cases "findIndex (\<lambda>a. id_tracked a = action_id e) (trackedActions s)")
  case None
  then have "action_id e \<notin> set (map id_tracked (trackedActions s))"
    by (auto simp: findIndex_None_iff)
  then show ?thesis
    using assms by (simp add: registerAction_new [OF None] consistent_def handles_append)
next
  case (Some i)
  let ?ts = "trackedActions s"
  let ?n = "nextTimer s"
  from findIndex_SomeD [OF Some] have i: "i < length ?ts"
    and idi: "id_tracked (?ts ! i) = action_id e" by simp_all
  note f = registerAction_existing [OF Some]
  from assms have ids: "distinct (map id_tracked ?ts)"
    and dh: "distinct (handles ?ts)"
    and dk: "distinct (map fst (timers s))"
    and keys: "set (map fst (timers s)) = set (handles ?ts)"
    and below: "list_all (\<lambda>h. h < ?n) (handles ?ts)"
    and run: "state s = running \<or> handles ?ts = []"
    by (simp_all add: consistent_def)
  have hs: "handles ?ts = handles (take i ?ts) @ handles [?ts ! i] @ handles (drop (Suc i) ?ts)"
    using handles_split [OF i] .
  have c1: "distinct (map id_tracked (trackedActions (registerAction rt e s)))"
  proof -
    have "map id_tracked (trackedActions (registerAction rt e s)) = map id_tracked ?ts"
      using i by (simp add: f map_update list_update_same_conv)
    then show ?thesis using ids by simp
  qed
  show ?thesis
  proof (cases "state s = running")
    case True
    have h': "handles (trackedActions (registerAction rt e s))
        = handles (take i ?ts) @ [?n] @ handles (drop (Suc i) ?ts)"
      using True i by (simp add: f handles_update)
    have k': "map fst (timers (registerAction rt e s))
        = filter (\<lambda>h. Some h \<noteq> timerId (?ts ! i)) (map fst (timers s)) @ [?n]"
      using True by (simp add: f filter_keys [where P = "\<lambda>h. Some h \<noteq> timerId (?ts ! i)"])
    have fresh: "?n \<notin> set (handles ?ts)"
      using below by (auto simp: list_all_iff)
    have c2: "distinct (handles (trackedActions (registerAction rt e s)))"
      unfolding h' using dh fresh unfolding hs by auto
    have c3: "distinct (map fst (timers (registerAction rt e s)))"
      unfolding k' using dk fresh keys by auto
    have c4: "set (map fst (timers (registerAction rt e s)))
        = set (handles (trackedActions (registerAction rt e s)))"
      unfolding k' h' using keys dh unfolding hs
      by (cases "timerId (?ts ! i)") auto
    have "\<forall>h\<in>set (handles ?ts). h < Suc ?n"
      using below by (auto simp: list_all_iff less_SucI)
    then have c5: "list_all (\<lambda>h. h < nextTimer (registerAction rt e s))
        (handles (trackedActions (registerAction rt e s)))"
      unfolding h' hs using True by (auto simp: f list_all_iff)
    have c6: "state (registerAction rt e s) = running" using True by (simp add: f)
    show ?thesis
      unfolding consistent_def using c1 c2 c3 c4 c5 c6 by blast
  next
    case False
    with run have empty: "handles ?ts = []" by simp
    then have none: "handles [?ts ! i] = []" and before: "handles (take i ?ts) = []"
      and after: "handles (drop (Suc i) ?ts) = []"
      using hs by simp_all
    from none have noh: "timerId (?ts ! i) = None" by (simp split: option.splits)
    have h': "handles (trackedActions (registerAction rt e s)) = []"
      using False i noh by (simp add: f handles_update before after)
    have k': "timers (registerAction rt e s) = []"
      using False keys empty by (simp add: f)
    show ?thesis
      unfolding consistent_def h' k' using c1 by simp
  qed
qed

lemma consistent_emit:
  assumes "consistent s"
  shows "consistent (emit cs s)"
  using assms by (simp add: consistent_def)

lemma reachable_consistent: "reachable rt s \<Longrightarrow> consistent s"
  by (induction rule: reachable.induct)
     (simp_all add: consistent_initial consistent_register consistent_unregister
        consistent_start consistent_stop consistent_emit)

section \<open>Sample states, evaluated\<close>

lemma sample_registered:
  "registerAction sampleRuntime (eventOf ''B'' sampleSettings)
     (registerAction sampleRuntime (eventOf ''A'' sampleSettings) initial)
   = \<lparr>trackedActions =
        [\<lparr>id_tracked = ''A'', ev = eventOf ''A'' sampleSettings, timerId = None\<rparr>,
         \<lparr>id_tracked = ''B'', ev = eventOf ''B'' sampleSettings, timerId = None\<rparr>],
      state = stopped, timers = [], nextTimer = 0,
      trace = [Log Info ''checking if action is already tracked'',
               Log Info ''checking if action is already tracked'']\<rparr>"
  by (simp add: registerAction_def initial_def emit_def eventOf_def Let_def)

lemma sample_started:
  "start sampleRuntime (eventOf ''A'' sampleSettings)
     (registerAction sampleRuntime (eventOf ''B'' sampleSettings)
        (registerAction sampleRuntime (eventOf ''A'' sampleSettings) initial))
   = \<lparr>trackedActions =
        [\<lparr>id_tracked = ''A'', ev = eventOf ''A'' sampleSettings, timerId = Some 0\<rparr>,
         \<lparr>id_tracked = ''B'', ev = eventOf ''B'' sampleSettings, timerId = Some 1\<rparr>],
      state = running,
      timers = [(0, \<lparr>timer_ev = eventOf ''A'' sampleSettings, delayMs = Fin 2000\<rparr>),
                (1, \<lparr>timer_ev = eventOf ''B'' sampleSettings, delayMs = Fin 2000\<rparr>)],
      nextTimer = 2,
      trace = [Log Info ''checking if action is already tracked'',
               Log Info ''checking if action is already tracked'',
               Log Info ''starting Background Service'',
               SetImage ''A'' ''imgs/actions/pyServiceRunning.png'']\<rparr>"
  unfolding sample_registered
  by (simp add: start_def emit_def clearTimerOf_def createTimer_def setInterval_def
      normalizeSettings_def eventOf_def sampleSettings_def sampleRuntime_def timeoutDelay_def
      TIMEOUT_MAX_def Let_def)

lemma sample_reachable:
  "reachable sampleRuntime
     (registerAction sampleRuntime (eventOf ''B'' sampleSettings)
        (registerAction sampleRuntime (eventOf ''A'' sampleSettings) initial))"
  "reachable sampleRuntime
     (start sampleRuntime (eventOf ''A'' sampleSettings)
        (registerAction sampleRuntime (eventOf ''B'' sampleSettings)
           (registerAction sampleRuntime (eventOf ''A'' sampleSettings) initial)))"
  by (intro reachable.intros)+

section \<open>The timer-existence invariant\<close>

text \<open>
  Claim C1, evaluated where it fails. From the initial state, key A is registered, the
  service is started, and the brand-new key B is registered: the service is running, B
  is tracked, and B holds no timer handle (A holds handle 0, the only live timer). The
  branch of \<^verbatim>\<open>registerAction\<close> for an id already tracked creates a timer when the
  service is running; the branch for a new id does not.
\<close>

theorem register_new_while_running_holds_no_timer:
  "state (registerAction sampleRuntime (eventOf ''B'' sampleSettings)
            (start sampleRuntime (eventOf ''A'' sampleSettings)
               (registerAction sampleRuntime (eventOf ''A'' sampleSettings) initial)))
     = running
   \<and> map (\<lambda>t. (id_tracked t, timerId t))
        (trackedActions
           (registerAction sampleRuntime (eventOf ''B'' sampleSettings)
              (start sampleRuntime (eventOf ''A'' sampleSettings)
                 (registerAction sampleRuntime (eventOf ''A'' sampleSettings) initial))))
       = [(''A'', Some 0), (''B'', None)]
   \<and> map fst (timers
        (registerAction sampleRuntime (eventOf ''B'' sampleSettings)
           (start sampleRuntime (eventOf ''A'' sampleSettings)
              (registerAction sampleRuntime (eventOf ''A'' sampleSettings) initial))))
       = [0]"
  by (simp add: registerAction_def start_def initial_def emit_def clearTimerOf_def
      createTimer_def setInterval_def eventOf_def Let_def)

section \<open>Start followed by stop\<close>

text \<open>
  Claim C6. In every reachable state, whatever the number of tracked entries, \<^verbatim>\<open>start\<close>
  arms one timer per tracked entry, and \<^verbatim>\<open>stop\<close> right after it leaves no live timer
  at all: no tracked entry holds a handle, the runtime has no live timer left, the
  service is stopped, and the tracked ids are as before.
\<close>

theorem start_then_stop_no_timers:
  assumes "reachable rt s"
  shows "length (timers (start rt e1 s)) = length (trackedActions s)
       \<and> timers (stop e2 (start rt e1 s)) = []
       \<and> map timerId (trackedActions (stop e2 (start rt e1 s)))
           = replicate (length (trackedActions s)) None
       \<and> state (stop e2 (start rt e1 s)) = stopped
       \<and> map id_tracked (trackedActions (stop e2 (start rt e1 s)))
           = map id_tracked (trackedActions s)"
proof -
  from assms have c: "consistent s" by (rule reachable_consistent)
  then have keys: "set (map fst (timers s)) = set (handles (trackedActions s))"
    and below: "list_all (\<lambda>h. h < nextTimer s) (handles (trackedActions s))"
    by (simp_all add: consistent_def)
  let ?s0 = "emit [Log Info ''starting Background Service''] s"
  have "filter (\<lambda>h. h \<notin> set (handles (trackedActions s))) (map fst (timers s)) = []"
    using keys by (auto simp: filter_empty_conv)
  then have "map fst (timers (start rt e1 s))
      = [nextTimer s ..< nextTimer s + length (trackedActions s)]"
    using startEach_timers [of ?s0 "trackedActions s" rt] below by (simp add: start_fields)
  then have "length (map fst (timers (start rt e1 s))) = length (trackedActions s)"
    by simp
  then have armed: "length (timers (start rt e1 s)) = length (trackedActions s)"
    by simp
  have "consistent (start rt e1 s)" using c by (rule consistent_start)
  then have "set (map fst (timers (start rt e1 s)))
      = set (handles (trackedActions (start rt e1 s)))"
    by (simp add: consistent_def)
  then have none: "timers (stop e2 (start rt e1 s)) = []"
    by (auto simp: stop_fields(3) filter_empty_conv)
  have len: "length (trackedActions (start rt e1 s)) = length (trackedActions s)"
    using startEach_entries [of rt "trackedActions s" ?s0]
    by (metis length_map start_fields(2))
  have hs: "map timerId (trackedActions (stop e2 (start rt e1 s)))
      = replicate (length (trackedActions s)) None"
    by (simp add: stop_fields(2) stopEach_entries len)
  have ids: "map id_tracked (trackedActions (stop e2 (start rt e1 s)))
      = map id_tracked (trackedActions s)"
    by (simp add: stop_fields(2) stopEach_entries start_fields(2) startEach_entries)
  show ?thesis
    using armed none hs ids stop_fields(1) by blast
qed

theorem start_then_stop_no_timers_witness:
  "reachable sampleRuntime
     (registerAction sampleRuntime (eventOf ''B'' sampleSettings)
        (registerAction sampleRuntime (eventOf ''A'' sampleSettings) initial))
   \<and> length (timers
        (start sampleRuntime (eventOf ''A'' sampleSettings)
           (registerAction sampleRuntime (eventOf ''B'' sampleSettings)
              (registerAction sampleRuntime (eventOf ''A'' sampleSettings) initial)))) = 2
   \<and> timers
        (stop (eventOf ''A'' sampleSettings)
           (start sampleRuntime (eventOf ''A'' sampleSettings)
              (registerAction sampleRuntime (eventOf ''B'' sampleSettings)
                 (registerAction sampleRuntime (eventOf ''A'' sampleSettings) initial)))) = []
   \<and> map timerId (trackedActions
        (stop (eventOf ''A'' sampleSettings)
           (start sampleRuntime (eventOf ''A'' sampleSettings)
              (registerAction sampleRuntime (eventOf ''B'' sampleSettings)
                 (registerAction sampleRuntime (eventOf ''A'' sampleSettings) initial)))))
       = [None, None]"
proof -
  let ?s = "registerAction sampleRuntime (eventOf ''B'' sampleSettings)
        (registerAction sampleRuntime (eventOf ''A'' sampleSettings) initial)"
  have r: "reachable sampleRuntime ?s" by (rule sample_reachable(1))
  have n: "length (trackedActions ?s) = 2" by (simp add: sample_registered)
  have two: "replicate 2 (None :: nat option) = [None, None]"
    by (simp add: numeral_2_eq_2)
  show ?thesis
    using start_then_stop_no_timers [OF r, of "eventOf ''A'' sampleSettings"
        "eventOf ''A'' sampleSettings"] r n two
    by simp
qed

section \<open>Registering an id again while running\<close>





section \<open>Unregistering\<close>

text \<open>
  Claim C9. \<^verbatim>\<open>unregisterAction\<close> with an id that is not tracked returns the state as
  it is: table, timers, run-state, and nothing is logged or raised. With a tracked id,
  found at index \<open>i\<close>, exactly the entry at \<open>i\<close> (which has that id) is removed, the
  timer under its handle, if it holds one, is cleared and no other, and the run-state is
  unchanged. An id is found exactly when some entry has it. The function has no failing
  path: it indexes the table only at the index it found.
\<close>

theorem unregisterAction_effect:
  "(findIndex (\<lambda>a. id_tracked a = action_id e) (trackedActions s) = None
      \<longrightarrow> unregisterAction e s = s)
   \<and> (findIndex (\<lambda>a. id_tracked a = action_id e) (trackedActions s) = Some i
      \<longrightarrow> i < length (trackedActions s)
        \<and> id_tracked (trackedActions s ! i) = action_id e
        \<and> trackedActions (unregisterAction e s)
            = take i (trackedActions s) @ drop (Suc i) (trackedActions s)
        \<and> Suc (length (trackedActions (unregisterAction e s))) = length (trackedActions s)
        \<and> timers (unregisterAction e s)
            = filter (\<lambda>p. Some (fst p) \<noteq> timerId (trackedActions s ! i)) (timers s)
        \<and> state (unregisterAction e s) = state s
        \<and> nextTimer (unregisterAction e s) = nextTimer s)
   \<and> (findIndex (\<lambda>a. id_tracked a = action_id e) (trackedActions s) = None
        \<longleftrightarrow> action_id e \<notin> set (map id_tracked (trackedActions s)))"
proof -
  have unknown: "findIndex (\<lambda>a. id_tracked a = action_id e) (trackedActions s) = None
      \<longrightarrow> unregisterAction e s = s"
    by (simp add: unregisterAction_unknown)
  have tracked: "findIndex (\<lambda>a. id_tracked a = action_id e) (trackedActions s) = Some i
      \<longrightarrow> i < length (trackedActions s)
        \<and> id_tracked (trackedActions s ! i) = action_id e
        \<and> trackedActions (unregisterAction e s)
            = take i (trackedActions s) @ drop (Suc i) (trackedActions s)
        \<and> Suc (length (trackedActions (unregisterAction e s))) = length (trackedActions s)
        \<and> timers (unregisterAction e s)
            = filter (\<lambda>p. Some (fst p) \<noteq> timerId (trackedActions s ! i)) (timers s)
        \<and> state (unregisterAction e s) = state s
        \<and> nextTimer (unregisterAction e s) = nextTimer s"
  proof
    assume fi: "findIndex (\<lambda>a. id_tracked a = action_id e) (trackedActions s) = Some i"
    from findIndex_SomeD [OF fi] have i: "i < length (trackedActions s)"
      and idi: "id_tracked (trackedActions s ! i) = action_id e" by simp_all
    note f = unregisterAction_tracked [OF fi]
    have "Suc (length (trackedActions (unregisterAction e s))) = length (trackedActions s)"
      using i by (simp add: f)
    with i idi f show "i < length (trackedActions s)
        \<and> id_tracked (trackedActions s ! i) = action_id e
        \<and> trackedActions (unregisterAction e s)
            = take i (trackedActions s) @ drop (Suc i) (trackedActions s)
        \<and> Suc (length (trackedActions (unregisterAction e s))) = length (trackedActions s)
        \<and> timers (unregisterAction e s)
            = filter (\<lambda>p. Some (fst p) \<noteq> timerId (trackedActions s ! i)) (timers s)
        \<and> state (unregisterAction e s) = state s
        \<and> nextTimer (unregisterAction e s) = nextTimer s"
      by simp
  qed
  have found: "findIndex (\<lambda>a. id_tracked a = action_id e) (trackedActions s) = None
        \<longleftrightarrow> action_id e \<notin> set (map id_tracked (trackedActions s))"
    by (force simp: findIndex_None_iff)
  show ?thesis
    using unknown tracked found by blast
qed

theorem unregisterAction_effect_witness:
  "findIndex (\<lambda>a. id_tracked a = action_id (eventOf ''C'' sampleSettings))
     (trackedActions
        (start sampleRuntime (eventOf ''A'' sampleSettings)
           (registerAction sampleRuntime (eventOf ''B'' sampleSettings)
              (registerAction sampleRuntime (eventOf ''A'' sampleSettings) initial)))) = None
   \<and> unregisterAction (eventOf ''C'' sampleSettings)
       (start sampleRuntime (eventOf ''A'' sampleSettings)
          (registerAction sampleRuntime (eventOf ''B'' sampleSettings)
             (registerAction sampleRuntime (eventOf ''A'' sampleSettings) initial)))
       = start sampleRuntime (eventOf ''A'' sampleSettings)
           (registerAction sampleRuntime (eventOf ''B'' sampleSettings)
              (registerAction sampleRuntime (eventOf ''A'' sampleSettings) initial))
   \<and> findIndex (\<lambda>a. id_tracked a = action_id (eventOf ''A'' sampleSettings))
     (trackedActions
        (start sampleRuntime (eventOf ''A'' sampleSettings)
           (registerAction sampleRuntime (eventOf ''B'' sampleSettings)
              (registerAction sampleRuntime (eventOf ''A'' sampleSettings) initial)))) = Some 0
   \<and> map (\<lambda>t. (id_tracked t, timerId t))
       (trackedActions
          (unregisterAction (eventOf ''A'' sampleSettings)
             (start sampleRuntime (eventOf ''A'' sampleSettings)
                (registerAction sampleRuntime (eventOf ''B'' sampleSettings)
                   (registerAction sampleRuntime (eventOf ''A'' sampleSettings) initial)))))
       = [(''B'', Some 1)]
   \<and> map fst
       (timers
          (unregisterAction (eventOf ''A'' sampleSettings)
             (start sampleRuntime (eventOf ''A'' sampleSettings)
                (registerAction sampleRuntime (eventOf ''B'' sampleSettings)
                   (registerAction sampleRuntime (eventOf ''A'' sampleSettings) initial)))))
       = [1]"
proof -
  let ?s = "start sampleRuntime (eventOf ''A'' sampleSettings)
        (registerAction sampleRuntime (eventOf ''B'' sampleSettings)
           (registerAction sampleRuntime (eventOf ''A'' sampleSettings) initial))"
  have no: "findIndex (\<lambda>a. id_tracked a = action_id (eventOf ''C'' sampleSettings))
      (trackedActions ?s) = None"
    unfolding sample_started by (simp add: eventOf_def)
  have yes: "findIndex (\<lambda>a. id_tracked a = action_id (eventOf ''A'' sampleSettings))
      (trackedActions ?s) = Some 0"
    unfolding sample_started by (simp add: eventOf_def)
  have same: "unregisterAction (eventOf ''C'' sampleSettings) ?s = ?s"
    using unregisterAction_effect [of "eventOf ''C'' sampleSettings" ?s] no by blast
  have tab: "trackedActions (unregisterAction (eventOf ''A'' sampleSettings) ?s)
      = take 0 (trackedActions ?s) @ drop (Suc 0) (trackedActions ?s)"
    and tim: "timers (unregisterAction (eventOf ''A'' sampleSettings) ?s)
      = filter (\<lambda>p. Some (fst p) \<noteq> timerId (trackedActions ?s ! 0)) (timers ?s)"
    using unregisterAction_effect [of "eventOf ''A'' sampleSettings" ?s 0] yes by blast+
  have t1: "map (\<lambda>t. (id_tracked t, timerId t))
       (trackedActions (unregisterAction (eventOf ''A'' sampleSettings) ?s)) = [(''B'', Some 1)]"
    unfolding tab by (simp add: sample_started)
  have t2: "map fst (timers (unregisterAction (eventOf ''A'' sampleSettings) ?s)) = [1]"
    unfolding tim by (simp add: sample_started)
  show ?thesis
    using no same yes t1 t2 by blast
qed

section \<open>The key-press toggle\<close>

lemma checkSettingsComplete_iff:
  "fst (checkSettingsComplete rt st) \<longleftrightarrow>
     truthy_str (path st) \<and> getInterval rt (interval st) \<noteq> None"
proof -
  have "truthy_num v" if "getInterval rt (interval st) = Some v" for v
  proof -
    from that have "isFinite v \<and> gt_zero v"
      by (auto simp: getInterval_def Let_def split: option.splits interval_value.splits if_splits)
    then show ?thesis by (cases v) auto
  qed
  then show ?thesis
    by (auto simp: checkSettingsComplete_def Let_def split: option.splits)
qed

lemma checkSettingsComplete_logs:
  "snd (checkSettingsComplete rt st) =
     (if fst (checkSettingsComplete rt st) then [Log Info ''settings complete''] else [])"
  by (simp add: checkSettingsComplete_def Let_def)

lemma getInterval_Some_iff:
  "getInterval rt iv = Some v \<longleftrightarrow>
     isFinite v \<and> gt_zero v \<and>
     (iv = Some (IntervalNumber v) \<or> (\<exists>str. iv = Some (IntervalString str) \<and> v = Number rt (trim str)))"
  by (auto simp: getInterval_def Let_def split: option.splits interval_value.splits)

text \<open>
  Claim C2. When \<^verbatim>\<open>onKeyDown\<close> fires and the service is running, it does what
  \<^verbatim>\<open>stop\<close> does, whatever the settings of the event are, and the service is stopped.
  When the service is stopped and the settings are complete, it does what \<^verbatim>\<open>start\<close>
  does (after the log line of the check) and the service is running. When the service is
  stopped and the settings are incomplete, \<^verbatim>\<open>start\<close> is not called: the state of the
  service and its timers are as before, and only a warning and \<^verbatim>\<open>showAlert\<close> are sent.
  Settings are complete exactly when the path is truthy and the interval is valid: a
  finite number above zero, or a string whose trimmed text converts to one.
\<close>

theorem onKeyDown_toggle:
  "(getState s = running \<longrightarrow>
      onKeyDown rt e s = stop e s \<and> getState (onKeyDown rt e s) = stopped)
   \<and> (getState s = stopped \<and> fst (checkSettingsComplete rt (settings e)) \<longrightarrow>
      onKeyDown rt e s = start rt e (emit [Log Info ''settings complete''] s)
      \<and> getState (onKeyDown rt e s) = running)
   \<and> (getState s = stopped \<and> \<not> fst (checkSettingsComplete rt (settings e)) \<longrightarrow>
      onKeyDown rt e s =
        emit [Log Warn ''Cannot start background service - incomplete settings'',
              ShowAlert (action_id e)] s
      \<and> getState (onKeyDown rt e s) = stopped)
   \<and> (fst (checkSettingsComplete rt st) \<longleftrightarrow>
        truthy_str (path st) \<and> getInterval rt (interval st) \<noteq> None)
   \<and> (getInterval rt iv = Some v \<longleftrightarrow>
        isFinite v \<and> gt_zero v \<and>
        (iv = Some (IntervalNumber v)
         \<or> (\<exists>str. iv = Some (IntervalString str) \<and> v = Number rt (trim str))))"
proof -
  have a: "getState s = running \<longrightarrow>
      onKeyDown rt e s = stop e s \<and> getState (onKeyDown rt e s) = stopped"
    by (simp add: onKeyDown_def getState_def stop_fields(1))
  have b: "getState s = stopped \<and> fst (checkSettingsComplete rt (settings e)) \<longrightarrow>
      onKeyDown rt e s = start rt e (emit [Log Info ''settings complete''] s)
      \<and> getState (onKeyDown rt e s) = running"
    by (simp add: onKeyDown_def getState_def case_prod_beta checkSettingsComplete_logs
        start_fields(1))
  have c: "getState s = stopped \<and> \<not> fst (checkSettingsComplete rt (settings e)) \<longrightarrow>
      onKeyDown rt e s =
        emit [Log Warn ''Cannot start background service - incomplete settings'',
              ShowAlert (action_id e)] s
      \<and> getState (onKeyDown rt e s) = stopped"
    by (simp add: onKeyDown_def getState_def case_prod_beta checkSettingsComplete_logs)
  show ?thesis
    using a b c checkSettingsComplete_iff getInterval_Some_iff by blast
qed

theorem onKeyDown_toggle_witness:
  "getState
     (start sampleRuntime (eventOf ''A'' sampleSettings)
        (registerAction sampleRuntime (eventOf ''B'' sampleSettings)
           (registerAction sampleRuntime (eventOf ''A'' sampleSettings) initial))) = running
   \<and> \<not> fst (checkSettingsComplete sampleRuntime (sampleSettings\<lparr>interval := None\<rparr>))
   \<and> getState
       (onKeyDown sampleRuntime (eventOf ''A'' (sampleSettings\<lparr>interval := None\<rparr>))
          (start sampleRuntime (eventOf ''A'' sampleSettings)
             (registerAction sampleRuntime (eventOf ''B'' sampleSettings)
                (registerAction sampleRuntime (eventOf ''A'' sampleSettings) initial))))
       = stopped
   \<and> getState
       (registerAction sampleRuntime (eventOf ''B'' sampleSettings)
          (registerAction sampleRuntime (eventOf ''A'' sampleSettings) initial)) = stopped
   \<and> fst (checkSettingsComplete sampleRuntime sampleSettings)
   \<and> getState
       (onKeyDown sampleRuntime (eventOf ''A'' sampleSettings)
          (registerAction sampleRuntime (eventOf ''B'' sampleSettings)
             (registerAction sampleRuntime (eventOf ''A'' sampleSettings) initial)))
       = running
   \<and> onKeyDown sampleRuntime (eventOf ''A'' (sampleSettings\<lparr>interval := None\<rparr>))
       (registerAction sampleRuntime (eventOf ''B'' sampleSettings)
          (registerAction sampleRuntime (eventOf ''A'' sampleSettings) initial))
       = emit [Log Warn ''Cannot start background service - incomplete settings'',
               ShowAlert ''A'']
           (registerAction sampleRuntime (eventOf ''B'' sampleSettings)
              (registerAction sampleRuntime (eventOf ''A'' sampleSettings) initial))"
proof -
  let ?stopped = "registerAction sampleRuntime (eventOf ''B'' sampleSettings)
          (registerAction sampleRuntime (eventOf ''A'' sampleSettings) initial)"
  let ?running = "start sampleRuntime (eventOf ''A'' sampleSettings) ?stopped"
  let ?bad = "eventOf ''A'' (sampleSettings\<lparr>interval := None\<rparr>)"
  let ?good = "eventOf ''A'' sampleSettings"
  have run: "getState ?running = running"
    by (simp add: getState_def start_fields(1))
  have stp: "getState ?stopped = stopped"
    unfolding sample_registered by (simp add: getState_def)
  have inc: "\<not> fst (checkSettingsComplete sampleRuntime (sampleSettings\<lparr>interval := None\<rparr>))"
    by (simp add: checkSettingsComplete_def getInterval_def)
  have com: "fst (checkSettingsComplete sampleRuntime sampleSettings)"
    by (simp add: checkSettingsComplete_def getInterval_def sampleSettings_def)
  have inc': "\<not> fst (checkSettingsComplete sampleRuntime (settings ?bad))"
    using inc by (simp add: eventOf_def)
  have com': "fst (checkSettingsComplete sampleRuntime (settings ?good))"
    using com by (simp add: eventOf_def)
  have r1: "getState (onKeyDown sampleRuntime ?bad ?running) = stopped"
    using onKeyDown_toggle [of ?running sampleRuntime ?bad] run by blast
  have r2: "getState (onKeyDown sampleRuntime ?good ?stopped) = running"
    using onKeyDown_toggle [of ?stopped sampleRuntime ?good] stp com' by blast
  have "onKeyDown sampleRuntime ?bad ?stopped
       = emit [Log Warn ''Cannot start background service - incomplete settings'',
               ShowAlert (action_id ?bad)] ?stopped"
    using onKeyDown_toggle [of ?stopped sampleRuntime ?bad] stp inc' by blast
  then have r3: "onKeyDown sampleRuntime ?bad ?stopped
       = emit [Log Warn ''Cannot start background service - incomplete settings'',
               ShowAlert ''A''] ?stopped"
    by (simp add: eventOf_def)
  show ?thesis
    using run inc r1 stp com r2 r3 by blast
qed

section \<open>The two ways a key gets registered\<close>

lemma registerAction_tracks:
  "action_id e \<in> set (map id_tracked (trackedActions (registerAction rt e s)))"
proof (cases "findIndex (\<lambda>a. id_tracked a = action_id e) (trackedActions s)")
  case None
  then show ?thesis by (simp add: registerAction_new)
next
  case (Some i)
  from findIndex_SomeD [OF Some] have i: "i < length (trackedActions s)"
    and idi: "id_tracked (trackedActions s ! i) = action_id e" by simp_all
  have "map id_tracked (trackedActions (registerAction rt e s))
      = map id_tracked (trackedActions s)"
    using i by (simp add: registerAction_existing [OF Some] map_update list_update_same_conv)
  moreover have "id_tracked (trackedActions s ! i) \<in> set (map id_tracked (trackedActions s))"
    using i by (metis length_map nth_map nth_mem)
  ultimately show ?thesis using idi by simp
qed

text \<open>
  Claim C10. \<^verbatim>\<open>onWillAppear\<close> registers the key only when its settings are complete:
  with incomplete settings the tracked table, the timers and the run-state stay as they
  are, so a key that was not tracked is not tracked afterwards; with complete settings
  the key is tracked afterwards. \<^verbatim>\<open>onDidReceiveSettings\<close> registers the key whatever
  its settings are, so the key is always tracked afterwards, also with incomplete
  settings.
\<close>

theorem registration_asymmetry:
  "(\<not> fst (checkSettingsComplete rt (settings e)) \<longrightarrow>
      onWillAppear rt e s = emit (showScript rt e) s
      \<and> trackedActions (onWillAppear rt e s) = trackedActions s
      \<and> timers (onWillAppear rt e s) = timers s
      \<and> state (onWillAppear rt e s) = state s)
   \<and> (\<not> fst (checkSettingsComplete rt (settings e))
      \<and> action_id e \<notin> set (map id_tracked (trackedActions s)) \<longrightarrow>
      action_id e \<notin> set (map id_tracked (trackedActions (onWillAppear rt e s))))
   \<and> (fst (checkSettingsComplete rt (settings e)) \<longrightarrow>
      onWillAppear rt e s
        = registerAction rt e (emit (showScript rt e @ [Log Info ''settings complete'']) s)
      \<and> action_id e \<in> set (map id_tracked (trackedActions (onWillAppear rt e s))))
   \<and> onDidReceiveSettings rt e s = registerAction rt e (emit (showScript rt e) s)
   \<and> action_id e \<in> set (map id_tracked (trackedActions (onDidReceiveSettings rt e s)))"
proof -
  have emit2: "emit bs (emit as s) = emit (as @ bs) s" for as bs
    by (simp add: emit_def)
  have inc: "onWillAppear rt e s = emit (showScript rt e) s"
    if "\<not> fst (checkSettingsComplete rt (settings e))"
    using that by (simp add: onWillAppear_def Let_def case_prod_beta checkSettingsComplete_logs)
  have com: "onWillAppear rt e s
        = registerAction rt e (emit (showScript rt e @ [Log Info ''settings complete'']) s)"
    if "fst (checkSettingsComplete rt (settings e))"
    using that
    by (simp add: onWillAppear_def Let_def case_prod_beta checkSettingsComplete_logs emit2)
  have rec: "onDidReceiveSettings rt e s = registerAction rt e (emit (showScript rt e) s)"
    by (simp add: onDidReceiveSettings_def)
  have a: "\<not> fst (checkSettingsComplete rt (settings e)) \<longrightarrow>
      onWillAppear rt e s = emit (showScript rt e) s
      \<and> trackedActions (onWillAppear rt e s) = trackedActions s
      \<and> timers (onWillAppear rt e s) = timers s
      \<and> state (onWillAppear rt e s) = state s"
    using inc by simp
  have b: "\<not> fst (checkSettingsComplete rt (settings e))
      \<and> action_id e \<notin> set (map id_tracked (trackedActions s)) \<longrightarrow>
      action_id e \<notin> set (map id_tracked (trackedActions (onWillAppear rt e s)))"
    using inc by simp
  have c: "fst (checkSettingsComplete rt (settings e)) \<longrightarrow>
      onWillAppear rt e s
        = registerAction rt e (emit (showScript rt e @ [Log Info ''settings complete'']) s)
      \<and> action_id e \<in> set (map id_tracked (trackedActions (onWillAppear rt e s)))"
    using com registerAction_tracks by simp
  have d: "action_id e \<in> set (map id_tracked (trackedActions (onDidReceiveSettings rt e s)))"
    unfolding rec by (rule registerAction_tracks)
  show ?thesis
    using a b c rec d by blast
qed

theorem registration_asymmetry_witness:
  "\<not> fst (checkSettingsComplete sampleRuntime
            (settings (eventOf ''A'' (sampleSettings\<lparr>interval := None\<rparr>))))
   \<and> ''A'' \<notin> set (map id_tracked (trackedActions initial))
   \<and> map id_tracked
       (trackedActions
          (onWillAppear sampleRuntime (eventOf ''A'' (sampleSettings\<lparr>interval := None\<rparr>)) initial))
       = []
   \<and> map id_tracked
       (trackedActions
          (onDidReceiveSettings sampleRuntime
             (eventOf ''A'' (sampleSettings\<lparr>interval := None\<rparr>)) initial))
       = [''A'']
   \<and> fst (checkSettingsComplete sampleRuntime (settings (eventOf ''A'' sampleSettings)))
   \<and> map id_tracked
       (trackedActions (onWillAppear sampleRuntime (eventOf ''A'' sampleSettings) initial))
       = [''A'']"
proof -
  let ?bad = "eventOf ''A'' (sampleSettings\<lparr>interval := None\<rparr>)"
  let ?good = "eventOf ''A'' sampleSettings"
  have inc: "\<not> fst (checkSettingsComplete sampleRuntime (settings ?bad))"
    by (simp add: checkSettingsComplete_def getInterval_def eventOf_def)
  have com: "fst (checkSettingsComplete sampleRuntime (settings ?good))"
    by (simp add: checkSettingsComplete_def getInterval_def sampleSettings_def eventOf_def)
  have new: "''A'' \<notin> set (map id_tracked (trackedActions initial))"
    by (simp add: initial_def)
  have "trackedActions (onWillAppear sampleRuntime ?bad initial) = trackedActions initial"
    using registration_asymmetry [of sampleRuntime ?bad initial] inc by blast
  then have r1: "map id_tracked (trackedActions (onWillAppear sampleRuntime ?bad initial)) = []"
    by (simp add: initial_def)
  have "onDidReceiveSettings sampleRuntime ?bad initial
      = registerAction sampleRuntime ?bad (emit (showScript sampleRuntime ?bad) initial)"
    using registration_asymmetry [of sampleRuntime ?bad initial] by blast
  then have r2: "map id_tracked (trackedActions (onDidReceiveSettings sampleRuntime ?bad initial))
      = [''A'']"
    by (simp add: registerAction_def initial_def Let_def) (simp add: eventOf_def)
  have "onWillAppear sampleRuntime ?good initial
      = registerAction sampleRuntime ?good
          (emit (showScript sampleRuntime ?good @ [Log Info ''settings complete'']) initial)"
    using registration_asymmetry [of sampleRuntime ?good initial] com by blast
  then have r3: "map id_tracked (trackedActions (onWillAppear sampleRuntime ?good initial))
      = [''A'']"
    by (simp add: registerAction_def initial_def Let_def) (simp add: eventOf_def)
  show ?thesis
    using inc new r1 r2 com r3 by blast
qed

section \<open>Normalizing the path of a virtual environment\<close>




end
